theory Spec2Isabelle
  imports Main "HOL-Library.Word"
begin

section \<open>The parallel depth-first search engine of gecode/search/parallel/dfs.cpp\<close>

text \<open>
  The engine thread and the worker threads of \<^verbatim>\<open>dfs.cpp\<close> communicate through the
  fields of \<^verbatim>\<open>DfsEngine\<close>, which are read and written under \<^verbatim>\<open>m_search\<close>, and through
  the fields of each \<^verbatim>\<open>DfsWorker\<close>, which are read and written under the worker's \<^verbatim>\<open>m\<close>.
  The embedding passes one state record through every method. A critical section is one
  function application; the interleaving of the threads is an explicit schedule.
\<close>

subsection \<open>Data\<close>

datatype Cmd = C_WORK | C_WAIT | C_TERMINATE

datatype SpaceStatus = SS_FAILED | SS_SOLVED | SS_BRANCH

text \<open>
  The counters of \<^verbatim>\<open>Statistics\<close> (declared in search.hh, outside the sources at hand)
  are unbounded naturals here.
\<close>

record Statistics =
  fail :: nat
  node :: nat
  memory :: nat

record Options =
  threads :: "32 word"
  c_d :: "32 word"
  a_d :: "32 word"

text \<open>
  Modelled from the spec: \<^verbatim>\<open>Support::Event\<close> (thread.hh), a condition event on which one
  thread waits until it is signalled. \<open>p_s\<close> is the pending signal, consumed by a completed
  wait; \<open>n_signal\<close> counts the calls of \<^verbatim>\<open>signal()\<close> made on the event so far.
\<close>

record Event =
  p_s :: bool
  n_signal :: nat

definition Event_init :: Event where
  "Event_init = \<lparr>p_s = False, n_signal = 0\<rparr>"

definition Event_signal :: "Event \<Rightarrow> Event" where
  "Event_signal ev = ev\<lparr>p_s := True, n_signal := Suc (n_signal ev)\<rparr>"

text \<open>A wait returns the event with the signal consumed; \<open>None\<close>: the waiting thread stays blocked.\<close>

definition Event_wait :: "Event \<Rightarrow> Event option" where
  "Event_wait ev = (if p_s ev then Some (ev\<lparr>p_s := False\<rparr>) else None)"

text \<open>
  Modelled from the spec: \<^verbatim>\<open>Support::Thread\<close> (thread.hh). A thread object runs the
  \<^verbatim>\<open>run()\<close> method of one worker and is live until that method returns.
\<close>

record Thread =
  runs :: nat
  live :: bool

text \<open>
  Modelled from the spec: a frame of \<^verbatim>\<open>Path\<close> (path.hh) with its branching description,
  its optional snapshot, the next alternative to try and the lowest alternative still
  available to a thief.
\<close>

record ('sp, 'desc) frame =
  desc :: 'desc
  snapshot :: "'sp option"
  next_alt :: nat
  steal_alt :: nat

text \<open>A path is its list of frames; the head of the list is the top frame, the last pushed.\<close>

type_synonym ('sp, 'desc) Path = "('sp, 'desc) frame list"

text \<open>
  \<^verbatim>\<open>class DfsWorker : public Worker, public Support::Runnable\<close>. \<open>stats\<close> is the
  \<^verbatim>\<open>Statistics\<close> base object of \<^verbatim>\<open>Worker\<close>; \<open>slept\<close> is the time in milliseconds the
  worker's thread has spent in \<^verbatim>\<open>Support::Thread::sleep\<close>.
\<close>

record ('sp, 'desc) DfsWorker =
  stats :: Statistics
  path :: "('sp, 'desc) Path"
  cur :: "'sp option"
  d :: "32 word"
  idle :: bool
  slept :: nat

text \<open>
  \<^verbatim>\<open>class DfsEngine : public Engine\<close>. \<open>m_wait\<close> tells whether the engine holds
  \<^verbatim>\<open>_m_wait\<close>; \<open>cmd_log\<close> lists the values assigned to \<^verbatim>\<open>_cmd\<close> so far, oldest first;
  \<open>worker\<close> and \<open>thread\<close> list the worker and thread objects constructed so far.
\<close>

record ('sp, 'desc) DfsEngine =
  opt :: Options
  thread :: "Thread list"
  worker :: "('sp, 'desc) DfsWorker list"
  cmd :: Cmd
  cmd_log :: "Cmd list"
  m_wait :: bool
  n_not_terminated :: "32 word"
  e_terminate :: Event
  e_search :: Event
  solutions :: "'sp list"
  n_busy :: "32 word"
  has_stopped :: bool

text \<open>
  The collaborators of the engine that are declared outside dfs.cpp are parameters of the
  embedding: the operations of \<^verbatim>\<open>Space\<close> and \<^verbatim>\<open>BranchingDesc\<close>, \<^verbatim>\<open>snapshot\<close> of
  support.hh, the book-keeping methods of the base class \<^verbatim>\<open>Worker\<close> (worker.hh) on its
  statistics, the default \<^verbatim>\<open>Statistics\<close> object, and recomputation and stealing on a
  path (path.hh). \<open>Space_status\<close>, \<open>Space_description\<close> and \<open>Space_commit\<close> return the space
  as the call leaves it; \<open>Worker_stop\<close> is \<^verbatim>\<open>Worker::stop(engine.opt().stop, sz)\<close>.
\<close>

record ('sp, 'desc) ext =
  Space_status :: "'sp \<Rightarrow> SpaceStatus \<times> 'sp"
  Space_clone :: "bool \<Rightarrow> 'sp \<Rightarrow> 'sp"
  Space_description :: "'sp \<Rightarrow> 'desc \<times> 'sp"
  Space_commit :: "'sp \<Rightarrow> 'desc \<Rightarrow> nat \<Rightarrow> 'sp"
  BranchingDesc_alternatives :: "'desc \<Rightarrow> nat"
  Search_snapshot :: "'sp \<Rightarrow> Options \<Rightarrow> 'sp option"
  Statistics_init :: Statistics
  Worker_init :: "nat \<Rightarrow> Statistics"
  Worker_start :: "Statistics \<Rightarrow> Statistics"
  Worker_stop :: "Statistics \<Rightarrow> nat \<Rightarrow> bool"
  Worker_push :: "'sp option \<Rightarrow> 'desc \<Rightarrow> Statistics \<Rightarrow> Statistics"
  Worker_current :: "'sp option \<Rightarrow> Statistics \<Rightarrow> Statistics"
  Path_recompute :: "('sp, 'desc) Path \<Rightarrow> 32 word \<Rightarrow> 32 word \<Rightarrow> 'sp \<times> ('sp, 'desc) Path \<times> 32 word"
  Path_steal :: "('sp, 'desc) Path \<Rightarrow> 'sp option \<times> ('sp, 'desc) Path"

text \<open>The null pointer constant \<^verbatim>\<open>NULL\<close>, as \<^verbatim>\<open>next()\<close> compares it with \<^verbatim>\<open>n_busy\<close>.\<close>

definition NULL :: "32 word" where
  "NULL = 0"

subsection \<open>Path operations used by the worker\<close>

text \<open>Modelled from the spec: \<^verbatim>\<open>Path::size\<close> (path.hh), the number of frames.\<close>

definition Path_size :: "('sp, 'desc) Path \<Rightarrow> nat" where
  "Path_size p = length p"

text \<open>
  Modelled from the spec: \<^verbatim>\<open>Path::push\<close> (path.hh). It asks the current space for its
  description, which consumes the branching, adds the frame with the given snapshot and
  both alternative indices at 1, and returns the description.
\<close>

definition Path_push ::
  "('sp, 'desc) ext \<Rightarrow> ('sp, 'desc) Path \<Rightarrow> 'sp \<Rightarrow> 'sp option \<Rightarrow> 'desc \<times> ('sp, 'desc) Path \<times> 'sp" where
  "Path_push x p c cl =
     (case Space_description x c of
        (ds, c') \<Rightarrow> (ds, \<lparr>desc = ds, snapshot = cl, next_alt = 1, steal_alt = 1\<rparr> # p, c'))"

text \<open>
  Modelled from the spec: \<^verbatim>\<open>Path::next\<close> (path.hh). It pops frames until the top frame
  has an alternative left; false when the path has become empty.
\<close>

fun Path_next :: "('sp, 'desc) ext \<Rightarrow> ('sp, 'desc) Path \<Rightarrow> bool \<times> ('sp, 'desc) Path" where
  "Path_next x [] = (False, [])"
| "Path_next x (f # fs) =
     (if next_alt f < BranchingDesc_alternatives x (desc f) then (True, f # fs)
      else Path_next x fs)"

subsection \<open>Engine: commands and the wait lock\<close>

definition DfsEngine_workers :: "('sp, 'desc) DfsEngine \<Rightarrow> nat" where
  "DfsEngine_workers e = unat (threads (opt e))"

text \<open>Every assignment to \<^verbatim>\<open>_cmd\<close> is recorded in \<open>cmd_log\<close>.\<close>

definition set_cmd :: "Cmd \<Rightarrow> ('sp, 'desc) DfsEngine \<Rightarrow> ('sp, 'desc) DfsEngine" where
  "set_cmd c e = e\<lparr>cmd := c, cmd_log := cmd_log e @ [c]\<rparr>"

definition DfsEngine_block :: "('sp, 'desc) DfsEngine \<Rightarrow> ('sp, 'desc) DfsEngine" where
  "DfsEngine_block e = (set_cmd C_WAIT e)\<lparr>m_wait := True\<rparr>"

definition DfsEngine_release :: "Cmd \<Rightarrow> ('sp, 'desc) DfsEngine \<Rightarrow> ('sp, 'desc) DfsEngine" where
  "DfsEngine_release c e = (set_cmd c e)\<lparr>m_wait := False\<rparr>"

definition DfsEngine_terminated :: "('sp, 'desc) DfsEngine \<Rightarrow> ('sp, 'desc) DfsEngine" where
  "DfsEngine_terminated e =
     (let e1 = e\<lparr>n_not_terminated := n_not_terminated e - 1\<rparr>
      in if n_not_terminated e1 = 0 then e1\<lparr>e_terminate := Event_signal (e_terminate e1)\<rparr> else e1)"

subsection \<open>Engine: search control\<close>

definition DfsEngine_signal :: "('sp, 'desc) DfsEngine \<Rightarrow> bool" where
  "DfsEngine_signal e = (solutions e = [] \<and> 0 < n_busy e \<and> \<not> has_stopped e)"

definition DfsEngine_solution :: "'sp \<Rightarrow> ('sp, 'desc) DfsEngine \<Rightarrow> ('sp, 'desc) DfsEngine" where
  "DfsEngine_solution s e =
     (let bs = DfsEngine_signal e;
          e1 = e\<lparr>solutions := solutions e @ [s]\<rparr>
      in if bs then e1\<lparr>e_search := Event_signal (e_search e1)\<rparr> else e1)"

definition DfsEngine_idle :: "('sp, 'desc) DfsEngine \<Rightarrow> ('sp, 'desc) DfsEngine" where
  "DfsEngine_idle e =
     (let bs = DfsEngine_signal e;
          e1 = e\<lparr>n_busy := n_busy e - 1\<rparr>
      in if bs \<and> n_busy e1 = 0 then e1\<lparr>e_search := Event_signal (e_search e1)\<rparr> else e1)"

text \<open>\<open>None\<close>: the assertion \<^verbatim>\<open>n_busy > 0\<close> fails.\<close>

definition DfsEngine_busy :: "('sp, 'desc) DfsEngine \<Rightarrow> ('sp, 'desc) DfsEngine option" where
  "DfsEngine_busy e = (if 0 < n_busy e then Some (e\<lparr>n_busy := n_busy e + 1\<rparr>) else None)"

definition DfsEngine_stop :: "('sp, 'desc) DfsEngine \<Rightarrow> ('sp, 'desc) DfsEngine" where
  "DfsEngine_stop e =
     (let bs = DfsEngine_signal e;
          e1 = e\<lparr>has_stopped := True\<rparr>
      in if bs then e1\<lparr>e_search := Event_signal (e_search e1)\<rparr> else e1)"

definition DfsEngine_stopped :: "('sp, 'desc) DfsEngine \<Rightarrow> bool" where
  "DfsEngine_stopped e = has_stopped e"

definition DfsEngine_statistics :: "('sp, 'desc) ext \<Rightarrow> ('sp, 'desc) DfsEngine \<Rightarrow> Statistics" where
  "DfsEngine_statistics x e = (let s = Statistics_init x in s)"

text \<open>The calls a worker makes on the engine.\<close>

datatype 'sp report = Solution 'sp | Idle | Busy | Stop | Terminated

fun do_report :: "'sp report \<Rightarrow> ('sp, 'desc) DfsEngine \<Rightarrow> ('sp, 'desc) DfsEngine option" where
  "do_report (Solution s) e = Some (DfsEngine_solution s e)"
| "do_report Idle e = Some (DfsEngine_idle e)"
| "do_report Busy e = DfsEngine_busy e"
| "do_report Stop e = Some (DfsEngine_stop e)"
| "do_report Terminated e = Some (DfsEngine_terminated e)"

subsection \<open>Worker\<close>

definition DfsWorker_init ::
  "('sp, 'desc) ext \<Rightarrow> Options \<Rightarrow> nat \<Rightarrow> 'sp option \<Rightarrow> ('sp, 'desc) DfsWorker" where
  "DfsWorker_init x opts sz s =
     (let w0 = \<lparr>stats = Worker_init x sz, path = [], cur = None, d = 0, idle = False, slept = 0\<rparr>;
          (s1, w1) =
            (case s of
               None \<Rightarrow> (None, w0)
             | Some r \<Rightarrow>
                 (case Space_status x r of
                    (st, r') \<Rightarrow>
                      (let c = (if st = SS_FAILED then None else Search_snapshot x r' opts)
                       in (Some r',
                           if c = None then w0\<lparr>cur := c, stats := (stats w0)\<lparr>fail := fail (stats w0) + 1\<rparr>\<rparr>
                           else w0\<lparr>cur := c\<rparr>))))
      in w1\<lparr>stats := Worker_current x (cur w1) (Worker_current x None (Worker_current x s1 (stats w1)))\<rparr>)"

definition set_worker ::
  "nat \<Rightarrow> ('sp, 'desc) DfsWorker \<Rightarrow> ('sp, 'desc) DfsEngine \<Rightarrow> ('sp, 'desc) DfsEngine" where
  "set_worker k w e = e\<lparr>worker := (worker e)[k := w]\<rparr>"

text \<open>
  \<^verbatim>\<open>DfsWorker::steal\<close> on worker \<open>i\<close>. The result is the stolen space, the calls made on
  the engine, and the state; \<open>None\<close>: the assertion of \<^verbatim>\<open>busy()\<close> fails.
\<close>

definition DfsWorker_steal ::
  "('sp, 'desc) ext \<Rightarrow> nat \<Rightarrow> ('sp, 'desc) DfsEngine
     \<Rightarrow> ('sp option \<times> 'sp report list \<times> ('sp, 'desc) DfsEngine) option" where
  "DfsWorker_steal x i e =
     (let v = worker e ! i in
      if idle v then Some (None, [], e)
      else (case Path_steal x (path v) of
              (s, p') \<Rightarrow>
                (let e1 = set_worker i (v\<lparr>path := p'\<rparr>) e
                 in if s \<noteq> None
                    then (case DfsEngine_busy e1 of
                            None \<Rightarrow> None
                          | Some e2 \<Rightarrow> Some (s, [Busy], e2))
                    else Some (s, [], e1))))"

text \<open>
  The sweep of \<^verbatim>\<open>DfsWorker::find\<close> by worker \<open>k\<close> over the peers \<open>is\<close> still to be asked,
  left by \<^verbatim>\<open>break\<close> after the first successful steal.
\<close>

fun find_sweep ::
  "('sp, 'desc) ext \<Rightarrow> nat \<Rightarrow> nat list \<Rightarrow> ('sp, 'desc) DfsEngine
     \<Rightarrow> ('sp report list \<times> ('sp, 'desc) DfsEngine) option" where
  "find_sweep x k [] e = Some ([], e)"
| "find_sweep x k (i # is) e =
     (if i \<noteq> k then
        (case DfsWorker_steal x i e of
           None \<Rightarrow> None
         | Some (None, rs, e1) \<Rightarrow>
             (case find_sweep x k is e1 of
                None \<Rightarrow> None
              | Some (rs', e2) \<Rightarrow> Some (rs @ rs', e2))
         | Some (Some s, rs, e1) \<Rightarrow>
             Some (rs, set_worker k ((worker e1 ! k)\<lparr>idle := False, cur := Some s\<rparr>) e1))
      else find_sweep x k is e)"

definition Thread_sleep :: "nat \<Rightarrow> nat \<Rightarrow> ('sp, 'desc) DfsEngine \<Rightarrow> ('sp, 'desc) DfsEngine" where
  "Thread_sleep k ms e = set_worker k ((worker e ! k)\<lparr>slept := slept (worker e ! k) + ms\<rparr>) e"

definition DfsWorker_find ::
  "('sp, 'desc) ext \<Rightarrow> nat \<Rightarrow> ('sp, 'desc) DfsEngine
     \<Rightarrow> ('sp report list \<times> ('sp, 'desc) DfsEngine) option" where
  "DfsWorker_find x k e =
     (case find_sweep x k [0..<DfsEngine_workers e] e of
        None \<Rightarrow> None
      | Some (rs, e1) \<Rightarrow> Some (rs, Thread_sleep k 10 e1))"

text \<open>
  The branch \<^verbatim>\<open>cur != NULL\<close> of the case \<^verbatim>\<open>C_WORK\<close> in \<^verbatim>\<open>DfsWorker::run\<close>, for worker
  \<open>k\<close> with current space \<open>c\<close>.
\<close>

definition run_explore ::
  "('sp, 'desc) ext \<Rightarrow> nat \<Rightarrow> 'sp \<Rightarrow> ('sp, 'desc) DfsEngine
     \<Rightarrow> 'sp report list \<times> ('sp, 'desc) DfsEngine" where
  "run_explore x k c e =
     (let w = worker e ! k;
          w1 = w\<lparr>stats := Worker_start x (stats w)\<rparr>
      in if Worker_stop x (stats w1) (Path_size (path w1))
         then ([Stop], DfsEngine_stop (set_worker k w1 e))
         else
           (let w2 = w1\<lparr>stats := (stats w1)\<lparr>node := node (stats w1) + 1\<rparr>\<rparr>
            in case Space_status x c of
                 (SS_FAILED, c1) \<Rightarrow>
                   (let w3 = w2\<lparr>stats := (stats w2)\<lparr>fail := fail (stats w2) + 1\<rparr>, cur := None\<rparr>;
                        w4 = w3\<lparr>stats := Worker_current x None (stats w3)\<rparr>
                    in ([], set_worker k w4 e))
               | (SS_SOLVED, c1) \<Rightarrow>
                   (let c2 = snd (Space_description x c1);
                        s = Space_clone x False c2;
                        w3 = w2\<lparr>cur := None\<rparr>;
                        w4 = w3\<lparr>stats := Worker_current x None (stats w3)\<rparr>
                    in ([Solution s], DfsEngine_solution s (set_worker k w4 e)))
               | (SS_BRANCH, c1) \<Rightarrow>
                   (let (cl, w3) =
                          (if d w2 = 0 \<or> c_d (opt e) \<le> d w2
                           then (Some (Space_clone x True c1), w2\<lparr>d := 1\<rparr>)
                           else (None, w2\<lparr>d := d w2 + 1\<rparr>))
                    in case Path_push x (path w3) c1 cl of
                         (ds, p', c2) \<Rightarrow>
                           (let w4 = w3\<lparr>path := p', stats := Worker_push x cl ds (stats w3)\<rparr>;
                                w5 = w4\<lparr>cur := Some (Space_commit x c2 ds 0)\<rparr>
                            in ([], set_worker k w5 e)))))"

text \<open>The branch \<^verbatim>\<open>cur == NULL\<close> of the case \<^verbatim>\<open>C_WORK\<close>, for a worker that is not idle.\<close>

definition run_recompute ::
  "('sp, 'desc) ext \<Rightarrow> nat \<Rightarrow> ('sp, 'desc) DfsEngine
     \<Rightarrow> 'sp report list \<times> ('sp, 'desc) DfsEngine" where
  "run_recompute x k e =
     (let w = worker e ! k
      in case Path_next x (path w) of
           (b, p') \<Rightarrow>
             if \<not> b then
               (let w1 = w\<lparr>path := p', idle := True\<rparr>;
                    e1 = DfsEngine_idle (set_worker k w1 e);
                    w2 = worker e1 ! k
                in ([Idle], set_worker k (w2\<lparr>stats := Worker_current x (cur w2) (stats w2)\<rparr>) e1))
             else
               (case Path_recompute x p' (d w) (a_d (opt e)) of
                  (c, p'', dn) \<Rightarrow>
                    (let w1 = w\<lparr>path := p'', d := dn, cur := Some c\<rparr>
                     in ([], set_worker k (w1\<lparr>stats := Worker_current x (cur w1) (stats w1)\<rparr>) e))))"

definition run_WORK ::
  "('sp, 'desc) ext \<Rightarrow> nat \<Rightarrow> ('sp, 'desc) DfsEngine
     \<Rightarrow> ('sp report list \<times> ('sp, 'desc) DfsEngine) option" where
  "run_WORK x k e =
     (let w = worker e ! k
      in if idle w then DfsWorker_find x k e
         else (case cur w of
                 Some c \<Rightarrow> Some (run_explore x k c e)
               | None \<Rightarrow> Some (run_recompute x k e)))"

text \<open>
  One iteration of the loop of \<^verbatim>\<open>DfsWorker::run\<close> by the thread of worker \<open>k\<close>: the calls
  it makes on the engine and the state it leaves. Under \<^verbatim>\<open>C_WAIT\<close> the worker passes or
  is parked at \<^verbatim>\<open>engine.wait()\<close> and changes nothing; under \<^verbatim>\<open>C_TERMINATE\<close> it registers
  its termination and the thread ends.
\<close>

definition DfsWorker_run ::
  "('sp, 'desc) ext \<Rightarrow> nat \<Rightarrow> ('sp, 'desc) DfsEngine
     \<Rightarrow> ('sp report list \<times> ('sp, 'desc) DfsEngine) option" where
  "DfsWorker_run x k e =
     (case cmd e of
        C_WAIT \<Rightarrow> Some ([], e)
      | C_TERMINATE \<Rightarrow>
          Some ([Terminated],
                (DfsEngine_terminated e)\<lparr>thread := (thread e)[k := (thread e ! k)\<lparr>live := False\<rparr>]\<rparr>)
      | C_WORK \<Rightarrow> run_WORK x k e)"

definition DfsWorker_statistics :: "('sp, 'desc) DfsWorker \<Rightarrow> Statistics" where
  "DfsWorker_statistics w = (let s = stats w in s\<lparr>memory := memory s + Path_size (path w)\<rparr>)"

subsection \<open>Engine: construction, next solution, destruction\<close>

text \<open>
  The states of the engine under construction, one after each statement of
  \<^verbatim>\<open>DfsEngine::DfsEngine\<close>. \<open>raw\<close> is the memory of the object before construction: the
  scalar fields without an initialiser (\<^verbatim>\<open>_cmd\<close>, \<^verbatim>\<open>_n_not_terminated\<close>, \<^verbatim>\<open>n_busy\<close>,
  \<^verbatim>\<open>has_stopped\<close>) keep what \<open>raw\<close> holds until they are assigned.
\<close>

definition DfsEngine_trace ::
  "('sp, 'desc) ext \<Rightarrow> 'sp \<Rightarrow> nat \<Rightarrow> Options \<Rightarrow> ('sp, 'desc) DfsEngine \<Rightarrow> ('sp, 'desc) DfsEngine list" where
  "DfsEngine_trace x s sz opts raw =
     (let e0 = raw\<lparr>opt := opts, thread := [], worker := [], cmd_log := [], m_wait := False,
                   e_terminate := Event_init, e_search := Event_init, solutions := []\<rparr>;
          e1 = e0\<lparr>worker := [DfsWorker_init x opts sz (Some s)]\<rparr>;
          e2 = e1\<lparr>worker := worker e1 @
                  map (\<lambda>i. DfsWorker_init x opts sz None) [1..<DfsEngine_workers e1]\<rparr>;
          e3 = DfsEngine_block e2;
          e4 = e3\<lparr>thread := map (\<lambda>i. \<lparr>runs = i, live = True\<rparr>) [0..<DfsEngine_workers e3]\<rparr>;
          e5 = e4\<lparr>n_not_terminated := threads (opt e4)\<rparr>;
          e6 = e5\<lparr>n_busy := threads (opt e5)\<rparr>;
          e7 = e6\<lparr>has_stopped := False\<rparr>
      in [e0, e1, e2, e3, e4, e5, e6, e7])"

text \<open>
  The constructed engine. \<open>None\<close>: with no worker at all, \<^verbatim>\<open>_worker[0]\<close> is written past
  the end of an allocation of length zero.
\<close>

definition DfsEngine_ctor ::
  "('sp, 'desc) ext \<Rightarrow> 'sp \<Rightarrow> nat \<Rightarrow> Options \<Rightarrow> ('sp, 'desc) DfsEngine \<Rightarrow> ('sp, 'desc) DfsEngine option" where
  "DfsEngine_ctor x s sz opts raw =
     (if threads opts = 0 then None else Some (last (DfsEngine_trace x s sz opts raw)))"

text \<open>
  What the threads do while the caller is inside \<^verbatim>\<open>next()\<close>: \<open>Run k\<close>, the thread of
  worker \<open>k\<close> executes one iteration of its loop; \<open>Wake\<close>, the caller's thread is scheduled.
\<close>

datatype event = Run nat | Wake

datatype ('sp, 'desc) outcome =
    Returned "'sp option" "('sp, 'desc) DfsEngine"
  | Waiting "('sp, 'desc) DfsEngine"
  | Aborted

definition can_run :: "nat \<Rightarrow> ('sp, 'desc) DfsEngine \<Rightarrow> bool" where
  "can_run k e = (k < length (worker e) \<and> k < length (thread e) \<and> live (thread e ! k))"

text \<open>
  The loop \<^verbatim>\<open>while (true)\<close> of \<^verbatim>\<open>DfsEngine::next\<close> under a schedule. \<open>Waiting\<close>: at the
  end of the schedule the caller is still inside the loop; \<open>Aborted\<close>: an assertion has
  failed in a worker.
\<close>

fun next_loop ::
  "('sp, 'desc) ext \<Rightarrow> ('sp, 'desc) DfsEngine \<Rightarrow> event list \<Rightarrow> ('sp, 'desc) outcome" where
  "next_loop x e [] = Waiting e"
| "next_loop x e (Run k # es) =
     (if can_run k e then
        (case DfsWorker_run x k e of
           None \<Rightarrow> Aborted
         | Some (rs, e1) \<Rightarrow> next_loop x e1 es)
      else next_loop x e es)"
| "next_loop x e (Wake # es) =
     (case Event_wait (e_search e) of
        None \<Rightarrow> next_loop x e es
      | Some ev \<Rightarrow>
          (let e1 = e\<lparr>e_search := ev\<rparr>
           in if solutions e1 \<noteq> []
              then Returned (Some (hd (solutions e1)))
                     (DfsEngine_block (e1\<lparr>solutions := tl (solutions e1)\<rparr>))
              else if n_busy e1 = NULL \<or> has_stopped e1
              then Returned None (DfsEngine_block e1)
              else next_loop x e1 es))"

definition DfsEngine_next ::
  "('sp, 'desc) ext \<Rightarrow> ('sp, 'desc) DfsEngine \<Rightarrow> event list \<Rightarrow> ('sp, 'desc) outcome" where
  "DfsEngine_next x e sched =
     (if solutions e \<noteq> []
      then Returned (Some (hd (solutions e))) (e\<lparr>solutions := tl (solutions e)\<rparr>)
      else if n_busy e = 0 \<or> has_stopped e
      then Returned None e
      else next_loop x (DfsEngine_release C_WORK e) sched)"

text \<open>The iterations of the worker threads listed in \<open>ks\<close>, in that order.\<close>

fun run_threads ::
  "('sp, 'desc) ext \<Rightarrow> nat list \<Rightarrow> ('sp, 'desc) DfsEngine \<Rightarrow> ('sp, 'desc) DfsEngine option" where
  "run_threads x [] e = Some e"
| "run_threads x (k # ks) e =
     (if can_run k e then
        (case DfsWorker_run x k e of
           None \<Rightarrow> None
         | Some (rs, e1) \<Rightarrow> run_threads x ks e1)
      else run_threads x ks e)"

text \<open>
  \<^verbatim>\<open>DfsEngine::~DfsEngine\<close>, with the worker iterations \<open>ks\<close> that run before the caller
  is scheduled again. \<open>None\<close>: the caller stays blocked on \<^verbatim>\<open>_e_terminate\<close>, or an
  assertion has failed in a worker.
\<close>

definition DfsEngine_dtor ::
  "('sp, 'desc) ext \<Rightarrow> nat list \<Rightarrow> ('sp, 'desc) DfsEngine \<Rightarrow> ('sp, 'desc) DfsEngine option" where
  "DfsEngine_dtor x ks e =
     (case run_threads x ks (DfsEngine_release C_TERMINATE e) of
        None \<Rightarrow> None
      | Some e1 \<Rightarrow>
          (case Event_wait (e_terminate e1) of
             None \<Rightarrow> None
           | Some ev \<Rightarrow> Some (e1\<lparr>e_terminate := ev, worker := [], thread := []\<rparr>)))"

subsection \<open>Reachable states and the order of commands\<close>

text \<open>The workers the constructor allocates: the first on the root, the others on nothing.\<close>

definition ctor_workers ::
  "('sp, 'desc) ext \<Rightarrow> 'sp \<Rightarrow> nat \<Rightarrow> Options \<Rightarrow> ('sp, 'desc) DfsWorker list" where
  "ctor_workers x s sz opts =
     DfsWorker_init x opts sz (Some s) #
     map (\<lambda>i. DfsWorker_init x opts sz None) [1..<unat (threads opts)]"

text \<open>
  Where the thread that owns the engine stands. \<^verbatim>\<open>block()\<close> and \<^verbatim>\<open>release(c)\<close> are
  two statements each, the assignment to \<^verbatim>\<open>_cmd\<close> and the operation on \<^verbatim>\<open>_m_wait\<close>;
  the positions \<open>In_ctor_block\<close>, \<open>In_next_block\<close>, \<open>In_next_release\<close> and
  \<open>In_dtor_release\<close> are between the two, inside the \<^verbatim>\<open>block()\<close> of the constructor,
  the \<^verbatim>\<open>block()\<close> of \<^verbatim>\<open>next()\<close>, the \<^verbatim>\<open>release(C_WORK)\<close> of \<^verbatim>\<open>next()\<close> and the
  \<^verbatim>\<open>release(C_TERMINATE)\<close> of the destructor. \<open>In_ctor\<close> is inside the constructor
  after its \<^verbatim>\<open>block()\<close>, \<open>Outside\<close> is between the calls of the caller on the
  constructed engine, \<open>In_next_loop\<close> is inside the loop of \<^verbatim>\<open>next()\<close>, and
  \<open>Destroyed\<close> is after the \<^verbatim>\<open>release(C_TERMINATE)\<close> of the destructor.
\<close>

datatype pc =
    In_ctor_block | In_ctor | Outside | In_next_release | In_next_loop | In_next_block
  | In_dtor_release | Destroyed

text \<open>
  The states the system passes through, with the position of the owner thread, one
  statement of \<^verbatim>\<open>block()\<close> and \<^verbatim>\<open>release(c)\<close> at a time. The constructor publishes
  \<^verbatim>\<open>C_WAIT\<close> once the workers are allocated, and its later states are those of
  \<open>DfsEngine_trace\<close> in which the lock is held. At every position a live worker thread
  may run an iteration (\<open>r_run\<close>); a worker that has read \<^verbatim>\<open>C_WORK\<close> from
  \<^verbatim>\<open>_cmd\<close>, which it reads without a lock, may run the work of its iteration after
  the command has changed (\<open>r_late\<close>), or make the call on the engine it had still to
  make (\<open>r_report\<close>). The other rules are the statements of \<^verbatim>\<open>next()\<close> and of the
  destructor: a queued solution is taken, or \<^verbatim>\<open>C_WORK\<close> is published and the lock
  released; in the loop the caller, woken by the search event, goes on waiting, or
  publishes \<^verbatim>\<open>C_WAIT\<close> and then acquires the lock; the destructor publishes
  \<^verbatim>\<open>C_TERMINATE\<close> and then releases the lock.
\<close>

inductive reachable :: "('sp, 'desc) ext \<Rightarrow> pc \<Rightarrow> ('sp, 'desc) DfsEngine \<Rightarrow> bool" for x where
  r_ctor_block:
    "threads opts \<noteq> 0 \<Longrightarrow> e \<in> set (DfsEngine_trace x s sz opts raw) \<Longrightarrow>
     worker e = ctor_workers x s sz opts \<Longrightarrow> \<not> m_wait e \<Longrightarrow>
     reachable x In_ctor_block (set_cmd C_WAIT e)"
| r_ctor_state:
    "threads opts \<noteq> 0 \<Longrightarrow> e \<in> set (DfsEngine_trace x s sz opts raw) \<Longrightarrow> m_wait e \<Longrightarrow>
     reachable x In_ctor e"
| r_ctor: "DfsEngine_ctor x s sz opts raw = Some e \<Longrightarrow> reachable x Outside e"
| r_run:
    "reachable x p e \<Longrightarrow> can_run k e \<Longrightarrow> DfsWorker_run x k e = Some (rs, e') \<Longrightarrow>
     reachable x p e'"
| r_late:
    "reachable x p e \<Longrightarrow> can_run k e \<Longrightarrow> run_WORK x k e = Some (rs, e') \<Longrightarrow>
     reachable x p e'"
| r_report: "reachable x p e \<Longrightarrow> do_report r e = Some e' \<Longrightarrow> reachable x p e'"
| r_take:
    "reachable x Outside e \<Longrightarrow> solutions e \<noteq> [] \<Longrightarrow>
     reachable x Outside (e\<lparr>solutions := tl (solutions e)\<rparr>)"
| r_work:
    "reachable x Outside e \<Longrightarrow> solutions e = [] \<Longrightarrow> \<not> (n_busy e = 0 \<or> has_stopped e) \<Longrightarrow>
     reachable x In_next_release (set_cmd C_WORK e)"
| r_release: "reachable x In_next_release e \<Longrightarrow> reachable x In_next_loop (e\<lparr>m_wait := False\<rparr>)"
| r_wake:
    "reachable x In_next_loop e \<Longrightarrow> Event_wait (e_search e) = Some ev \<Longrightarrow> solutions e = [] \<Longrightarrow>
     \<not> (n_busy e = NULL \<or> has_stopped e) \<Longrightarrow>
     reachable x In_next_loop (e\<lparr>e_search := ev\<rparr>)"
| r_found:
    "reachable x In_next_loop e \<Longrightarrow> Event_wait (e_search e) = Some ev \<Longrightarrow> solutions e \<noteq> [] \<Longrightarrow>
     reachable x In_next_block (set_cmd C_WAIT (e\<lparr>e_search := ev, solutions := tl (solutions e)\<rparr>))"
| r_over:
    "reachable x In_next_loop e \<Longrightarrow> Event_wait (e_search e) = Some ev \<Longrightarrow> solutions e = [] \<Longrightarrow>
     n_busy e = NULL \<or> has_stopped e \<Longrightarrow>
     reachable x In_next_block (set_cmd C_WAIT (e\<lparr>e_search := ev\<rparr>))"
| r_acquire: "reachable x In_next_block e \<Longrightarrow> reachable x Outside (e\<lparr>m_wait := True\<rparr>)"
| r_terminate: "reachable x Outside e \<Longrightarrow> reachable x In_dtor_release (set_cmd C_TERMINATE e)"
| r_destroyed: "reachable x In_dtor_release e \<Longrightarrow> reachable x Destroyed (e\<lparr>m_wait := False\<rparr>)"

text \<open>
  What the command and the lock are at each position, and the positions between the two
  statements of \<^verbatim>\<open>block()\<close> or \<^verbatim>\<open>release(c)\<close>.
\<close>

fun pc_inv :: "pc \<Rightarrow> ('sp, 'desc) DfsEngine \<Rightarrow> bool" where
  "pc_inv In_ctor_block e = (cmd e = C_WAIT \<and> \<not> m_wait e)"
| "pc_inv In_ctor e = (cmd e = C_WAIT \<and> m_wait e)"
| "pc_inv Outside e = (cmd e = C_WAIT \<and> m_wait e)"
| "pc_inv In_next_release e = (cmd e = C_WORK \<and> m_wait e)"
| "pc_inv In_next_loop e = (cmd e = C_WORK \<and> \<not> m_wait e)"
| "pc_inv In_next_block e = (cmd e = C_WAIT \<and> \<not> m_wait e)"
| "pc_inv In_dtor_release e = (cmd e = C_TERMINATE \<and> m_wait e)"
| "pc_inv Destroyed e = (cmd e = C_TERMINATE \<and> \<not> m_wait e)"

fun in_block_or_release :: "pc \<Rightarrow> bool" where
  "in_block_or_release In_ctor_block = True"
| "in_block_or_release In_next_release = True"
| "in_block_or_release In_next_block = True"
| "in_block_or_release In_dtor_release = True"
| "in_block_or_release In_ctor = False"
| "in_block_or_release Outside = False"
| "in_block_or_release In_next_loop = False"
| "in_block_or_release Destroyed = False"



text \<open>The transitions of \<^verbatim>\<open>_cmd\<close>: wait to work, work to wait, wait to terminate.\<close>

definition cmd_step :: "Cmd \<Rightarrow> Cmd \<Rightarrow> bool" where
  "cmd_step a b =
     (a = C_WAIT \<and> b = C_WORK \<or> a = C_WORK \<and> b = C_WAIT \<or> a = C_WAIT \<and> b = C_TERMINATE)"

fun cmd_chain :: "Cmd list \<Rightarrow> bool" where
  "cmd_chain (a # b # cs) = (cmd_step a b \<and> cmd_chain (b # cs))"
| "cmd_chain _ = True"

definition cmd_order :: "Cmd list \<Rightarrow> bool" where
  "cmd_order l = (l \<noteq> [] \<and> hd l = C_WAIT \<and> cmd_chain l)"

subsection \<open>A concrete space for evaluation\<close>

text \<open>
  A space given by its search tree: a failed leaf, a solved leaf, or a branching over the
  listed subtrees. Its branching description is the list of the subtrees, committing to
  alternative \<open>i\<close> moves to the \<open>i\<close>-th subtree, a clone is the tree itself.
\<close>

datatype tree = Failed | Solved | Branch "tree list"

fun tree_status :: "tree \<Rightarrow> SpaceStatus" where
  "tree_status Failed = SS_FAILED"
| "tree_status Solved = SS_SOLVED"
| "tree_status (Branch ts) = SS_BRANCH"

fun tree_description :: "tree \<Rightarrow> tree list" where
  "tree_description (Branch ts) = ts"
| "tree_description _ = []"

definition tree_commit :: "tree \<Rightarrow> tree list \<Rightarrow> nat \<Rightarrow> tree" where
  "tree_commit t ds i = (if i < length ds then ds ! i else Failed)"

definition tree_recompute ::
  "(tree, tree list) Path \<Rightarrow> 32 word \<Rightarrow> 32 word \<Rightarrow> tree \<times> (tree, tree list) Path \<times> 32 word" where
  "tree_recompute p dist ad =
     (case p of
        [] \<Rightarrow> (Failed, [], 0)
      | f # fs \<Rightarrow>
          (tree_commit Failed (desc f) (next_alt f),
           f\<lparr>next_alt := Suc (next_alt f), steal_alt := max (steal_alt f) (Suc (next_alt f))\<rparr> # fs,
           0))"

text \<open>Stealing from the frames listed bottom first.\<close>

fun tree_steal_bottom ::
  "(tree, tree list) Path \<Rightarrow> tree option \<times> (tree, tree list) Path" where
  "tree_steal_bottom [] = (None, [])"
| "tree_steal_bottom (f # fs) =
     (if steal_alt f < length (desc f)
      then (Some (desc f ! steal_alt f), f\<lparr>steal_alt := Suc (steal_alt f)\<rparr> # fs)
      else (case tree_steal_bottom fs of (s, fs') \<Rightarrow> (s, f # fs')))"

definition tree_steal :: "(tree, tree list) Path \<Rightarrow> tree option \<times> (tree, tree list) Path" where
  "tree_steal p = (case tree_steal_bottom (rev p) of (s, q) \<Rightarrow> (s, rev q))"

definition Statistics_zero :: Statistics where
  "Statistics_zero = \<lparr>fail = 0, node = 0, memory = 0\<rparr>"

text \<open>The collaborators for tree spaces, with stop predicate \<open>stp\<close>.\<close>

definition tree_ext :: "(Statistics \<Rightarrow> nat \<Rightarrow> bool) \<Rightarrow> (tree, tree list) ext" where
  "tree_ext stp =
     \<lparr>Space_status = (\<lambda>t. (tree_status t, t)),
      Space_clone = (\<lambda>share t. t),
      Space_description = (\<lambda>t. (tree_description t, t)),
      Space_commit = tree_commit,
      BranchingDesc_alternatives = length,
      Search_snapshot = (\<lambda>t opts. Some t),
      Statistics_init = Statistics_zero,
      Worker_init = (\<lambda>sz. Statistics_zero),
      Worker_start = (\<lambda>st. st),
      Worker_stop = stp,
      Worker_push = (\<lambda>cl ds st. st),
      Worker_current = (\<lambda>s st. st),
      Path_recompute = tree_recompute,
      Path_steal = tree_steal\<rparr>"

definition never_stop :: "Statistics \<Rightarrow> nat \<Rightarrow> bool" where
  "never_stop st sz = False"

definition node_stop :: "nat \<Rightarrow> Statistics \<Rightarrow> nat \<Rightarrow> bool" where
  "node_stop n st sz = (n \<le> node st)"

text \<open>Memory of an engine before construction, and options for \<open>n\<close> workers.\<close>

definition raw_engine :: "(tree, tree list) DfsEngine" where
  "raw_engine =
     \<lparr>opt = \<lparr>threads = 0, c_d = 0, a_d = 0\<rparr>, thread = [], worker = [], cmd = C_WORK,
      cmd_log = [], m_wait = False, n_not_terminated = 0, e_terminate = Event_init,
      e_search = Event_init, solutions = [], n_busy = 0, has_stopped = True\<rparr>"

definition options :: "32 word \<Rightarrow> Options" where
  "options n = \<lparr>threads = n, c_d = 8, a_d = 2\<rparr>"

subsection \<open>Invariants\<close>

text \<open>What the worker-side calls leave alone.\<close>

definition same_control :: "('sp, 'desc) DfsEngine \<Rightarrow> ('sp, 'desc) DfsEngine \<Rightarrow> bool" where
  "same_control e e' =
     (cmd e' = cmd e \<and> cmd_log e' = cmd_log e \<and> m_wait e' = m_wait e \<and> opt e' = opt e \<and>
      length (worker e') = length (worker e) \<and> (has_stopped e \<longrightarrow> has_stopped e'))"

text \<open>
  The commands published so far follow the order of \<open>cmd_step\<close> from a first
  \<^verbatim>\<open>C_WAIT\<close>, and the last of them is the current command.
\<close>

definition log_inv :: "('sp, 'desc) DfsEngine \<Rightarrow> bool" where
  "log_inv e = (cmd_order (cmd_log e) \<and> last (cmd_log e) = cmd e)"

subsection \<open>Concrete engines\<close>

text \<open>One worker on a root that is failed, never stopped.\<close>

definition failed_root :: "(tree, tree list) DfsEngine" where
  "failed_root = the (DfsEngine_ctor (tree_ext never_stop) Failed 0 (options 1) raw_engine)"

text \<open>The same engine after its worker has gone idle and \<^verbatim>\<open>next()\<close> has returned.\<close>

definition exhausted :: "(tree, tree list) DfsEngine" where
  "exhausted =
     failed_root\<lparr>worker := [(worker failed_root ! 0)\<lparr>idle := True\<rparr>],
                 cmd_log := [C_WAIT, C_WORK, C_WAIT],
                 e_search := \<lparr>p_s = False, n_signal = 1\<rparr>, n_busy := 0\<rparr>"

text \<open>The engine of \<open>failed_root\<close> while the caller waits inside \<^verbatim>\<open>next()\<close>.\<close>

definition working :: "(tree, tree list) DfsEngine" where
  "working = DfsEngine_release C_WORK failed_root"

text \<open>The engine of \<open>working\<close> after the one iteration in which its worker goes idle.\<close>

definition signalled :: "(tree, tree list) DfsEngine" where
  "signalled = snd (the (DfsWorker_run (tree_ext never_stop) 0 working))"

text \<open>
  One worker on a root with two levels of branching, after the first iteration of the
  worker, which has pushed the root with a snapshot.
\<close>

definition branching :: "(tree, tree list) DfsEngine" where
  "branching =
     snd (the (DfsWorker_run (tree_ext never_stop) 0
       (DfsEngine_release C_WORK
         (the (DfsEngine_ctor (tree_ext never_stop) (Branch [Branch [Solved, Failed], Solved]) 0
                (options 1) raw_engine)))))"

text \<open>
  Two workers on a root with a failed and a solved alternative, while the caller waits
  inside \<^verbatim>\<open>next()\<close>: the second worker has gone idle, then the first has pushed the root
  and holds the first alternative.
\<close>

definition stealable :: "(tree, tree list) DfsEngine" where
  "stealable =
     the (run_threads (tree_ext never_stop) [1, 0]
       (DfsEngine_release C_WORK
         (the (DfsEngine_ctor (tree_ext never_stop) (Branch [Failed, Solved]) 0 (options 2)
                raw_engine))))"

text \<open>
  One worker on a solved root under a stop predicate that always fires, while the caller
  waits inside \<^verbatim>\<open>next()\<close>; and the same engine after the worker has reported the stop.
\<close>

definition stopping :: "(tree, tree list) DfsEngine" where
  "stopping =
     DfsEngine_release C_WORK
       (the (DfsEngine_ctor (tree_ext (node_stop 0)) Solved 0 (options 1) raw_engine))"

definition stopped_once :: "(tree, tree list) DfsEngine" where
  "stopped_once = stopping\<lparr>e_search := \<lparr>p_s = True, n_signal = 1\<rparr>, has_stopped := True\<rparr>"




text \<open>Two workers, never stopped: the constructed engine, and the engine released to work.\<close>

definition pair :: "(tree, tree list) DfsEngine" where
  "pair = the (DfsEngine_ctor (tree_ext never_stop) (Branch [Failed, Solved]) 0 (options 2) raw_engine)"

definition pair_working :: "(tree, tree list) DfsEngine" where
  "pair_working = DfsEngine_release C_WORK pair"

text \<open>
  The engine of \<open>failed_root\<close> inside \<^verbatim>\<open>release(C_WORK)\<close>, the command published and
  the lock still held; and the engine of \<open>signalled\<close> inside \<^verbatim>\<open>block()\<close>, the caller
  woken, the command published and the lock not yet acquired.
\<close>

definition releasing :: "(tree, tree list) DfsEngine" where
  "releasing = set_cmd C_WORK failed_root"

definition blocking :: "(tree, tree list) DfsEngine" where
  "blocking = set_cmd C_WAIT (signalled\<lparr>e_search := \<lparr>p_s = False, n_signal = 1\<rparr>\<rparr>)"

section \<open>Properties\<close>

subsection \<open>Auxiliary facts\<close>

lemma set_worker_fields [simp]:
  "cmd (set_worker k w e) = cmd e" "cmd_log (set_worker k w e) = cmd_log e"
  "m_wait (set_worker k w e) = m_wait e" "has_stopped (set_worker k w e) = has_stopped e"
  "opt (set_worker k w e) = opt e" "solutions (set_worker k w e) = solutions e"
  "e_search (set_worker k w e) = e_search e" "n_busy (set_worker k w e) = n_busy e"
  "thread (set_worker k w e) = thread e" "worker (set_worker k w e) = (worker e)[k := w]"
  "n_not_terminated (set_worker k w e) = n_not_terminated e"
  "e_terminate (set_worker k w e) = e_terminate e"
  by (simp_all add: set_worker_def)

lemma workers_set_worker [simp]: "DfsEngine_workers (set_worker k w e) = DfsEngine_workers e"
  by (simp add: DfsEngine_workers_def)

lemma same_control_refl [simp]: "same_control e e"
  by (simp add: same_control_def)

lemma same_control_trans: "same_control e e1 \<Longrightarrow> same_control e1 e2 \<Longrightarrow> same_control e e2"
  by (simp add: same_control_def)

lemma same_control_set_worker [simp]: "same_control e (set_worker k w e)"
  by (simp add: same_control_def)

lemma same_control_solution [simp]: "same_control e (DfsEngine_solution s e)"
  by (simp add: same_control_def DfsEngine_solution_def Let_def)

lemma same_control_idle [simp]: "same_control e (DfsEngine_idle e)"
  by (simp add: same_control_def DfsEngine_idle_def Let_def)

lemma same_control_stop [simp]: "same_control e (DfsEngine_stop e)"
  by (simp add: same_control_def DfsEngine_stop_def Let_def)

lemma same_control_terminated [simp]: "same_control e (DfsEngine_terminated e)"
  by (simp add: same_control_def DfsEngine_terminated_def Let_def)

lemma same_control_busy: "DfsEngine_busy e = Some e' \<Longrightarrow> same_control e e'"
  by (auto simp: same_control_def DfsEngine_busy_def split: if_splits)

lemma same_control_report: "do_report r e = Some e' \<Longrightarrow> same_control e e'"
  by (cases r) (auto simp: same_control_busy)

lemma same_control_steal:
  "DfsWorker_steal x i e = Some (s, rs, e') \<Longrightarrow> same_control e e'"
  by (auto simp: DfsWorker_steal_def Let_def split: if_splits prod.splits option.splits
      intro: same_control_trans [OF same_control_set_worker same_control_busy])

lemma same_control_find_sweep:
  "find_sweep x k is e = Some (rs, e') \<Longrightarrow> same_control e e'"
proof (induction "is" arbitrary: e rs)
  case Nil
  then show ?case by simp
next
  case (Cons i "is")
  show ?case
  proof (cases "i = k")
    case True
    with Cons show ?thesis by simp
  next
    case False
    from Cons.prems False obtain s rs1 e1 where st: "DfsWorker_steal x i e = Some (s, rs1, e1)"
      by (auto split: option.splits)
    have c1: "same_control e e1" by (rule same_control_steal [OF st])
    show ?thesis
    proof (cases s)
      case None
      with Cons.prems False st obtain rs2 where "find_sweep x k is e1 = Some (rs2, e')"
        by (auto split: option.splits)
      then have "same_control e1 e'" by (rule Cons.IH)
      with c1 show ?thesis by (rule same_control_trans)
    next
      case (Some t)
      with Cons.prems False st
      have "e' = set_worker k ((worker e1 ! k)\<lparr>idle := False, cur := Some t\<rparr>) e1" by simp
      then have "same_control e1 e'" by simp
      with c1 show ?thesis by (rule same_control_trans)
    qed
  qed
qed

lemma same_control_sleep [simp]: "same_control e (Thread_sleep k ms e)"
  by (simp add: Thread_sleep_def)

lemma same_control_find: "DfsWorker_find x k e = Some (rs, e') \<Longrightarrow> same_control e e'"
  by (auto simp: DfsWorker_find_def split: option.splits
      intro: same_control_trans [OF same_control_find_sweep same_control_sleep])

lemma same_control_explore: "run_explore x k c e = (rs, e') \<Longrightarrow> same_control e e'"
  by (auto simp: run_explore_def Let_def split: if_splits prod.splits SpaceStatus.splits
      intro: same_control_trans [OF same_control_set_worker same_control_stop]
             same_control_trans [OF same_control_set_worker same_control_solution])

lemma same_control_recompute: "run_recompute x k e = (rs, e') \<Longrightarrow> same_control e e'"
  by (auto simp: run_recompute_def Let_def same_control_def DfsEngine_idle_def
      split: if_splits prod.splits)

lemma same_control_WORK: "run_WORK x k e = Some (rs, e') \<Longrightarrow> same_control e e'"
  by (auto simp: run_WORK_def Let_def split: if_splits option.splits
      dest: same_control_find same_control_explore same_control_recompute)

lemma same_control_run: "DfsWorker_run x k e = Some (rs, e') \<Longrightarrow> same_control e e'"
  by (auto simp: DfsWorker_run_def same_control_def DfsEngine_terminated_def Let_def
      split: Cmd.splits if_splits dest: same_control_WORK)

lemma cmd_chain_snoc:
  "cmd_chain (l @ [c]) = (cmd_chain l \<and> (l = [] \<or> cmd_step (last l) c))"
  by (induction l rule: cmd_chain.induct) auto

lemma block_fields [simp]:
  "cmd (DfsEngine_block e) = C_WAIT" "m_wait (DfsEngine_block e)"
  "solutions (DfsEngine_block e) = solutions e" "n_busy (DfsEngine_block e) = n_busy e"
  "has_stopped (DfsEngine_block e) = has_stopped e" "e_search (DfsEngine_block e) = e_search e"
  "worker (DfsEngine_block e) = worker e" "thread (DfsEngine_block e) = thread e"
  "opt (DfsEngine_block e) = opt e"
  by (simp_all add: DfsEngine_block_def set_cmd_def)

lemma release_fields [simp]:
  "cmd (DfsEngine_release c e) = c" "\<not> m_wait (DfsEngine_release c e)"
  "solutions (DfsEngine_release c e) = solutions e" "n_busy (DfsEngine_release c e) = n_busy e"
  "has_stopped (DfsEngine_release c e) = has_stopped e"
  "e_search (DfsEngine_release c e) = e_search e"
  "worker (DfsEngine_release c e) = worker e" "thread (DfsEngine_release c e) = thread e"
  "opt (DfsEngine_release c e) = opt e"
  by (simp_all add: DfsEngine_release_def set_cmd_def)

lemma ctor_last:
  "last (DfsEngine_trace x s sz opts raw) = e \<Longrightarrow>
   cmd e = C_WAIT \<and> m_wait e \<and> cmd_log e = [C_WAIT] \<and> n_busy e = threads opts \<and> \<not> has_stopped e \<and>
   opt e = opts \<and> solutions e = [] \<and> n_not_terminated e = threads opts \<and>
   worker e = DfsWorker_init x opts sz (Some s) #
              map (\<lambda>i. DfsWorker_init x opts sz None) [1..<unat (threads opts)] \<and>
   thread e = map (\<lambda>i. \<lparr>runs = i, live = True\<rparr>) [0..<unat (threads opts)]"
  by (auto simp: DfsEngine_trace_def Let_def DfsEngine_block_def set_cmd_def DfsEngine_workers_def)

lemma ctor_Some:
  "DfsEngine_ctor x s sz opts raw = Some e \<Longrightarrow>
   threads opts \<noteq> 0 \<and> last (DfsEngine_trace x s sz opts raw) = e"
  by (simp add: DfsEngine_ctor_def split: if_splits)


lemma next_loop_stopped:
  "has_stopped e \<Longrightarrow> next_loop x e es = Returned r e' \<or> next_loop x e es = Waiting e'
     \<Longrightarrow> has_stopped e'"
proof (induction x e es rule: next_loop.induct)
  case (1 x e)
  then show ?case by auto
next
  case (2 x e k es)
  show ?case
  proof (cases "can_run k e")
    case False
    with 2 show ?thesis by simp
  next
    case True
    show ?thesis
    proof (cases "DfsWorker_run x k e")
      case None
      with True "2.prems" show ?thesis by simp
    next
      case (Some a)
      obtain rs e1 where a: "a = (rs, e1)" by (cases a)
      from same_control_run [of x k e rs e1] Some a "2.prems"(1) have "has_stopped e1"
        by (simp add: same_control_def)
      with "2.IH"(1) [OF True Some a [symmetric]] "2.prems"(2) True Some a show ?thesis by simp
    qed
  qed
next
  case (3 x e es)
  show ?case
  proof (cases "Event_wait (e_search e)")
    case None
    with 3 show ?thesis by simp
  next
    case (Some ev)
    show ?thesis
    proof (cases "solutions e \<noteq> []")
      case True
      with Some "3.prems" show ?thesis by auto
    next
      case False
      with Some "3.prems" show ?thesis by auto
    qed
  qed
qed

lemma next_stopped:
  "has_stopped e \<Longrightarrow> DfsEngine_next x e es = Returned r e' \<Longrightarrow> has_stopped e'"
  by (auto simp: DfsEngine_next_def split: if_splits)

lemma steal_other:
  "DfsWorker_steal x i e = Some (s, rs, e') \<Longrightarrow> i \<noteq> k \<Longrightarrow>
   worker e' ! k = worker e ! k \<and> length (worker e') = length (worker e) \<and>
   rs = (if s = None then [] else [Busy])"
  by (auto simp: DfsWorker_steal_def DfsEngine_busy_def Let_def
      split: if_splits prod.splits option.splits)

lemma find_sweep_self:
  "find_sweep x k is e = Some (rs, e') \<Longrightarrow> k < length (worker e) \<Longrightarrow>
   length (worker e') = length (worker e) \<and>
   slept (worker e' ! k) = slept (worker e ! k) \<and> path (worker e' ! k) = path (worker e ! k) \<and>
   stats (worker e' ! k) = stats (worker e ! k) \<and> d (worker e' ! k) = d (worker e ! k) \<and>
   (rs = [] \<and> idle (worker e' ! k) = idle (worker e ! k) \<and> cur (worker e' ! k) = cur (worker e ! k)
    \<or> rs = [Busy] \<and> \<not> idle (worker e' ! k) \<and> cur (worker e' ! k) \<noteq> None)"
proof (induction "is" arbitrary: e rs)
  case Nil
  then show ?case by simp
next
  case (Cons i "is")
  show ?case
  proof (cases "i = k")
    case True
    with Cons show ?thesis by simp
  next
    case False
    from Cons.prems False obtain s rs1 e1 where st: "DfsWorker_steal x i e = Some (s, rs1, e1)"
      by (auto split: option.splits)
    note so = steal_other [OF st False]
    show ?thesis
    proof (cases s)
      case None
      with Cons.prems False st obtain rs2 where fs: "find_sweep x k is e1 = Some (rs2, e')"
        and rs: "rs = rs1 @ rs2"
        by (auto split: option.splits)
      from so Cons.prems(2) have "k < length (worker e1)" by simp
      from Cons.IH [OF fs this] so rs None show ?thesis by simp
    next
      case (Some t)
      with Cons.prems False st
      have "e' = set_worker k ((worker e1 ! k)\<lparr>idle := False, cur := Some t\<rparr>) e1" "rs = rs1"
        by simp_all
      with so Some Cons.prems(2) show ?thesis by simp
    qed
  qed
qed

text \<open>The definitions unfolded to evaluate the engine on tree spaces.\<close>

lemmas eval_defs =
  DfsEngine_ctor_def DfsEngine_trace_def options_def raw_engine_def DfsWorker_init_def
  tree_ext_def Let_def DfsEngine_block_def set_cmd_def DfsEngine_workers_def Event_init_def
  DfsEngine_next_def DfsEngine_release_def can_run_def DfsWorker_run_def run_WORK_def
  run_recompute_def run_explore_def DfsWorker_find_def DfsWorker_steal_def Thread_sleep_def
  DfsEngine_idle_def DfsEngine_busy_def DfsEngine_stop_def DfsEngine_solution_def
  DfsEngine_signal_def set_worker_def Event_signal_def Event_wait_def NULL_def
  Statistics_zero_def Path_push_def Path_size_def tree_commit_def tree_steal_def
  tree_recompute_def never_stop_def node_stop_def

lemma failed_root_eq:
  "failed_root =
     \<lparr>opt = \<lparr>threads = 1, c_d = 8, a_d = 2\<rparr>, thread = [\<lparr>runs = 0, live = True\<rparr>],
      worker = [\<lparr>stats = \<lparr>fail = 1, node = 0, memory = 0\<rparr>, path = [], cur = None, d = 0,
                 idle = False, slept = 0\<rparr>],
      cmd = C_WAIT, cmd_log = [C_WAIT], m_wait = True, n_not_terminated = 1,
      e_terminate = \<lparr>p_s = False, n_signal = 0\<rparr>, e_search = \<lparr>p_s = False, n_signal = 0\<rparr>,
      solutions = [], n_busy = 1, has_stopped = False\<rparr>"
  by (simp add: failed_root_def eval_defs)

lemma failed_root_ctor:
  "DfsEngine_ctor (tree_ext never_stop) Failed 0 (options 1) raw_engine = Some failed_root"
  by (simp add: failed_root_def DfsEngine_ctor_def options_def)

lemma signalled_eq:
  "signalled =
     failed_root\<lparr>worker := [(worker failed_root ! 0)\<lparr>idle := True\<rparr>],
                 cmd := C_WORK, cmd_log := [C_WAIT, C_WORK], m_wait := False,
                 e_search := \<lparr>p_s = True, n_signal = 1\<rparr>, n_busy := 0\<rparr>"
  by (simp add: signalled_def working_def failed_root_eq eval_defs)

lemma failed_root_next:
  "DfsEngine_next (tree_ext never_stop) failed_root [Run 0, Wake] = Returned None exhausted"
  by (simp add: exhausted_def failed_root_eq eval_defs)

lemma cmd_chain_terminate: "cmd_chain l \<Longrightarrow> C_TERMINATE \<notin> set (butlast l)"
  by (induction l rule: cmd_chain.induct) (auto simp: cmd_step_def)

lemma unat_threads_pos: "threads opts \<noteq> 0 \<Longrightarrow> 0 < unat (threads opts)"
  by (simp add: unat_gt_0)

lemma word_succ_no_wrap: "(a :: 32 word) < b \<Longrightarrow> unat (a + 1) = unat a + 1"
proof -
  assume "a < b"
  then have "unat a < unat b" by (simp add: word_less_nat_alt)
  moreover have "unat b < 2 ^ LENGTH(32)" by (rule unsigned_less)
  ultimately have "unat a + unat (1 :: 32 word) < 2 ^ LENGTH(32)" by simp
  then show ?thesis by (simp add: unat_add_lem [THEN iffD1])
qed

lemma run_explore_branch:
  assumes "k < length (worker e)"
    and "\<not> Worker_stop x (Worker_start x (stats (worker e ! k))) (Path_size (path (worker e ! k)))"
    and "Space_status x c = (SS_BRANCH, c1)"
    and "Path_push x (path (worker e ! k)) c1
           (if d (worker e ! k) = 0 \<or> c_d (opt e) \<le> d (worker e ! k)
            then Some (Space_clone x True c1) else None) = (ds, p', c2)"
  shows "fst (run_explore x k c e) = [] \<and>
         path (worker (snd (run_explore x k c e)) ! k) = p' \<and>
         cur (worker (snd (run_explore x k c e)) ! k) = Some (Space_commit x c2 ds 0) \<and>
         d (worker (snd (run_explore x k c e)) ! k) =
           (if d (worker e ! k) = 0 \<or> c_d (opt e) \<le> d (worker e ! k) then 1 else d (worker e ! k) + 1)"
proof (cases "d (worker e ! k) = 0 \<or> c_d (opt e) \<le> d (worker e ! k)")
  case True
  with assms show ?thesis by (simp add: run_explore_def Let_def)
next
  case False
  with assms show ?thesis by (simp add: run_explore_def Let_def)
qed

lemma word_8_le_1: "\<not> (8 :: 32 word) \<le> 1"
  by (simp add: word_le_nat_alt)

lemma branching_eq:
  "branching =
     \<lparr>opt = \<lparr>threads = 1, c_d = 8, a_d = 2\<rparr>, thread = [\<lparr>runs = 0, live = True\<rparr>],
      worker = [\<lparr>stats = \<lparr>fail = 0, node = 1, memory = 0\<rparr>,
                 path = [\<lparr>desc = [Branch [Solved, Failed], Solved],
                          snapshot = Some (Branch [Branch [Solved, Failed], Solved]),
                          next_alt = 1, steal_alt = 1\<rparr>],
                 cur = Some (Branch [Solved, Failed]), d = 1, idle = False, slept = 0\<rparr>],
      cmd = C_WORK, cmd_log = [C_WAIT, C_WORK], m_wait = False, n_not_terminated = 1,
      e_terminate = \<lparr>p_s = False, n_signal = 0\<rparr>, e_search = \<lparr>p_s = False, n_signal = 0\<rparr>,
      solutions = [], n_busy = 1, has_stopped = False\<rparr>"
  by (simp add: branching_def eval_defs)

lemma stealable_eq:
  "stealable =
     \<lparr>opt = \<lparr>threads = 2, c_d = 8, a_d = 2\<rparr>,
      thread = [\<lparr>runs = 0, live = True\<rparr>, \<lparr>runs = 1, live = True\<rparr>],
      worker = [\<lparr>stats = \<lparr>fail = 0, node = 1, memory = 0\<rparr>,
                 path = [\<lparr>desc = [Failed, Solved], snapshot = Some (Branch [Failed, Solved]),
                          next_alt = 1, steal_alt = 1\<rparr>],
                 cur = Some Failed, d = 1, idle = False, slept = 0\<rparr>,
                \<lparr>stats = \<lparr>fail = 0, node = 0, memory = 0\<rparr>, path = [], cur = None, d = 0,
                 idle = True, slept = 0\<rparr>],
      cmd = C_WORK, cmd_log = [C_WAIT, C_WORK], m_wait = False, n_not_terminated = 2,
      e_terminate = \<lparr>p_s = False, n_signal = 0\<rparr>, e_search = \<lparr>p_s = False, n_signal = 0\<rparr>,
      solutions = [], n_busy = 1, has_stopped = False\<rparr>"
  by (simp add: stealable_def eval_defs upt_rec)

lemma stealable_find:
  "DfsWorker_find (tree_ext never_stop) 1 stealable =
     Some ([Busy],
       stealable\<lparr>worker :=
           [(worker stealable ! 0)\<lparr>path :=
               [\<lparr>desc = [Failed, Solved], snapshot = Some (Branch [Failed, Solved]),
                 next_alt = 1, steal_alt = 2\<rparr>]\<rparr>,
            (worker stealable ! 1)\<lparr>idle := False, cur := Some Solved, slept := 10\<rparr>],
         n_busy := 2\<rparr>)"
  by (simp add: stealable_eq eval_defs upt_rec)

lemma stopping_eq:
  "stopping =
     \<lparr>opt = \<lparr>threads = 1, c_d = 8, a_d = 2\<rparr>, thread = [\<lparr>runs = 0, live = True\<rparr>],
      worker = [\<lparr>stats = \<lparr>fail = 0, node = 0, memory = 0\<rparr>, path = [], cur = Some Solved,
                 d = 0, idle = False, slept = 0\<rparr>],
      cmd = C_WORK, cmd_log = [C_WAIT, C_WORK], m_wait = False, n_not_terminated = 1,
      e_terminate = \<lparr>p_s = False, n_signal = 0\<rparr>, e_search = \<lparr>p_s = False, n_signal = 0\<rparr>,
      solutions = [], n_busy = 1, has_stopped = False\<rparr>"
  by (simp add: stopping_def eval_defs)

lemma stopping_run:
  "DfsWorker_run (tree_ext (node_stop 0)) 0 stopping = Some ([Stop], stopped_once)"
  by (simp add: stopped_once_def stopping_eq eval_defs)

lemma stopped_once_run:
  "DfsWorker_run (tree_ext (node_stop 0)) 0 stopped_once = Some ([Stop], stopped_once)"
  by (simp add: stopped_once_def stopping_eq eval_defs)

lemma run_explore_stop:
  assumes "Worker_stop x (Worker_start x (stats (worker e ! k))) (Path_size (path (worker e ! k)))"
  shows "run_explore x k c e =
           ([Stop], DfsEngine_stop
              (set_worker k ((worker e ! k)\<lparr>stats := Worker_start x (stats (worker e ! k))\<rparr>) e))"
  using assms by (simp add: run_explore_def Let_def)

lemma stop_sets_flag [simp]: "has_stopped (DfsEngine_stop e)"
  by (simp add: DfsEngine_stop_def Let_def)

lemma stop_again: "has_stopped e \<Longrightarrow> DfsEngine_stop e = e"
  by (simp add: DfsEngine_stop_def DfsEngine_signal_def Let_def)





lemma nth_update_path:
  "idle ((ws[i := (ws ! i)\<lparr>path := p\<rparr>]) ! j) = idle (ws ! j) \<and>
   cur ((ws[i := (ws ! i)\<lparr>path := p\<rparr>]) ! j) = cur (ws ! j)"
proof (cases "i < length ws")
  case True
  then show ?thesis by (cases "i = j") simp_all
next
  case False
  then have "ws[i := (ws ! i)\<lparr>path := p\<rparr>] = ws" by (simp add: list_update_beyond)
  then show ?thesis by simp
qed

lemma steal_keeps:
  "DfsWorker_steal x i e = Some (s, rs, e') \<Longrightarrow>
   idle (worker e' ! j) = idle (worker e ! j) \<and> cur (worker e' ! j) = cur (worker e ! j)"
  by (auto simp: DfsWorker_steal_def DfsEngine_busy_def Let_def nth_update_path
      split: if_splits prod.splits option.splits)

lemma find_sweep_other:
  "find_sweep x k is e = Some (rs, e') \<Longrightarrow> j \<noteq> k \<Longrightarrow>
   idle (worker e' ! j) = idle (worker e ! j) \<and> cur (worker e' ! j) = cur (worker e ! j)"
proof (induction "is" arbitrary: e rs)
  case Nil
  then show ?case by simp
next
  case (Cons i "is")
  show ?case
  proof (cases "i = k")
    case True
    with Cons show ?thesis by simp
  next
    case False
    from Cons.prems False obtain s rs1 e1 where st: "DfsWorker_steal x i e = Some (s, rs1, e1)"
      by (auto split: option.splits)
    note sk = steal_keeps [OF st, of j]
    show ?thesis
    proof (cases s)
      case None
      with Cons.prems False st obtain rs2 where fs: "find_sweep x k is e1 = Some (rs2, e')"
        by (auto split: option.splits)
      from Cons.IH [OF fs Cons.prems(2)] sk show ?thesis by simp
    next
      case (Some t)
      with Cons.prems False st
      have "e' = set_worker k ((worker e1 ! k)\<lparr>idle := False, cur := Some t\<rparr>) e1" by simp
      with sk Cons.prems(2) show ?thesis by simp
    qed
  qed
qed

lemma run_other:
  assumes "DfsWorker_run x k e = Some (rs, e')" and "j \<noteq> k"
  shows "idle (worker e' ! j) = idle (worker e ! j) \<and> cur (worker e' ! j) = cur (worker e ! j)"
proof (cases "cmd e")
  case C_WAIT
  with assms show ?thesis by (simp add: DfsWorker_run_def)
next
  case C_TERMINATE
  with assms show ?thesis
    by (auto simp: DfsWorker_run_def DfsEngine_terminated_def Let_def split: if_splits)
next
  case C_WORK
  with assms have w: "run_WORK x k e = Some (rs, e')" by (simp add: DfsWorker_run_def)
  show ?thesis
  proof (cases "idle (worker e ! k)")
    case True
    with w obtain e1 where fs: "find_sweep x k [0..<DfsEngine_workers e] e = Some (rs, e1)"
      and e': "e' = Thread_sleep k 10 e1"
      by (auto simp: run_WORK_def DfsWorker_find_def split: option.splits)
    from find_sweep_other [OF fs assms(2)] e' assms(2) show ?thesis
      by (simp add: Thread_sleep_def)
  next
    case False
    show ?thesis
    proof (cases "cur (worker e ! k)")
      case None
      with w False have "run_recompute x k e = (rs, e')" by (simp add: run_WORK_def)
      with assms(2) show ?thesis
        by (auto simp: run_recompute_def Let_def DfsEngine_idle_def split: if_splits prod.splits)
    next
      case (Some c)
      with w False have "run_explore x k c e = (rs, e')" by (simp add: run_WORK_def)
      with assms(2) show ?thesis
        by (auto simp: run_explore_def Let_def DfsEngine_stop_def DfsEngine_solution_def
            split: if_splits prod.splits SpaceStatus.splits)
    qed
  qed
qed

lemma init_None:
  "\<not> idle (DfsWorker_init x opts sz None) \<and> cur (DfsWorker_init x opts sz None) = None \<and>
   path (DfsWorker_init x opts sz None) = []"
  by (simp add: DfsWorker_init_def Let_def)

lemma run_recompute_idle:
  assumes "k < length (worker e)"
  shows "fst (run_recompute x k e) = (if fst (Path_next x (path (worker e ! k))) then [] else [Idle]) \<and>
         (idle (worker (snd (run_recompute x k e)) ! k) \<longleftrightarrow>
            idle (worker e ! k) \<or> \<not> fst (Path_next x (path (worker e ! k)))) \<and>
         n_busy (snd (run_recompute x k e)) =
           (if fst (Path_next x (path (worker e ! k))) then n_busy e else n_busy e - 1)"
proof -
  obtain b p' where pn: "Path_next x (path (worker e ! k)) = (b, p')"
    by (cases "Path_next x (path (worker e ! k))")
  obtain c p'' dn where pr: "Path_recompute x p' (d (worker e ! k)) (a_d (opt e)) = (c, p'', dn)"
    by (cases "Path_recompute x p' (d (worker e ! k)) (a_d (opt e))")
  show ?thesis
  proof (cases b)
    case True
    with assms pn pr show ?thesis by (simp add: run_recompute_def Let_def)
  next
    case False
    with assms pn show ?thesis by (simp add: run_recompute_def Let_def DfsEngine_idle_def)
  qed
qed

lemma pair_ctor:
  "DfsEngine_ctor (tree_ext never_stop) (Branch [Failed, Solved]) 0 (options 2) raw_engine = Some pair"
  by (simp add: pair_def DfsEngine_ctor_def options_def)

lemma pair_working_eq:
  "pair_working =
     \<lparr>opt = \<lparr>threads = 2, c_d = 8, a_d = 2\<rparr>,
      thread = [\<lparr>runs = 0, live = True\<rparr>, \<lparr>runs = 1, live = True\<rparr>],
      worker = [\<lparr>stats = \<lparr>fail = 0, node = 0, memory = 0\<rparr>, path = [],
                 cur = Some (Branch [Failed, Solved]), d = 0, idle = False, slept = 0\<rparr>,
                \<lparr>stats = \<lparr>fail = 0, node = 0, memory = 0\<rparr>, path = [], cur = None, d = 0,
                 idle = False, slept = 0\<rparr>],
      cmd = C_WORK, cmd_log = [C_WAIT, C_WORK], m_wait = False, n_not_terminated = 2,
      e_terminate = \<lparr>p_s = False, n_signal = 0\<rparr>, e_search = \<lparr>p_s = False, n_signal = 0\<rparr>,
      solutions = [], n_busy = 2, has_stopped = False\<rparr>"
  by (simp add: pair_working_def pair_def eval_defs upt_rec)

lemma trace_published:
  assumes "e \<in> set (DfsEngine_trace x s sz opts raw)"
  shows "(\<not> m_wait e \<longrightarrow> cmd_log e = []) \<and> (m_wait e \<longrightarrow> cmd e = C_WAIT \<and> cmd_log e = [C_WAIT])"
proof -
  from assms have "e \<in> set (DfsEngine_trace x s sz opts raw)" .
  then show ?thesis
    unfolding DfsEngine_trace_def Let_def
    by (auto simp: DfsEngine_block_def set_cmd_def)
qed

lemma log_inv_same: "same_control e e' \<Longrightarrow> log_inv e \<Longrightarrow> log_inv e'"
  by (simp add: same_control_def log_inv_def)

lemma pc_inv_same: "same_control e e' \<Longrightarrow> pc_inv p e \<Longrightarrow> pc_inv p e'"
  by (cases p) (simp_all add: same_control_def)

lemma log_inv_set_cmd: "log_inv e \<Longrightarrow> cmd_step (cmd e) c \<Longrightarrow> log_inv (set_cmd c e)"
  by (auto simp: log_inv_def set_cmd_def cmd_order_def cmd_chain_snoc)

lemma log_inv_first: "cmd_log e = [] \<Longrightarrow> log_inv (set_cmd C_WAIT e)"
  by (simp add: log_inv_def set_cmd_def cmd_order_def)

lemma set_cmd_fields [simp]:
  "cmd (set_cmd c e) = c" "m_wait (set_cmd c e) = m_wait e"
  by (simp_all add: set_cmd_def)

lemma log_inv_fields [simp]:
  "log_inv (e\<lparr>m_wait := b\<rparr>) = log_inv e" "log_inv (e\<lparr>solutions := ss\<rparr>) = log_inv e"
  "log_inv (e\<lparr>e_search := ev\<rparr>) = log_inv e"
  by (simp_all add: log_inv_def)

lemma reachable_inv: "reachable x p e \<Longrightarrow> pc_inv p e \<and> log_inv e"
proof (induction rule: reachable.induct)
  case (r_ctor_block opts e s sz raw)
  from trace_published [OF r_ctor_block(2)] r_ctor_block(4) have "cmd_log e = []" by simp
  with r_ctor_block(4) show ?case by (simp add: log_inv_first)
next
  case (r_ctor_state opts e s sz raw)
  from trace_published [OF r_ctor_state(2)] r_ctor_state(3)
  show ?case by (simp add: log_inv_def cmd_order_def)
next
  case (r_ctor s sz opts raw e)
  then have "last (DfsEngine_trace x s sz opts raw) = e" by (simp add: ctor_Some)
  from ctor_last [OF this] show ?case by (simp add: log_inv_def cmd_order_def)
next
  case (r_run p e k rs e')
  from same_control_run [OF r_run(3)] r_run.IH show ?case
    by (blast intro: pc_inv_same log_inv_same)
next
  case (r_late p e k rs e')
  from same_control_WORK [OF r_late(3)] r_late.IH show ?case
    by (blast intro: pc_inv_same log_inv_same)
next
  case (r_report p e r e')
  from same_control_report [OF r_report(2)] r_report.IH show ?case
    by (blast intro: pc_inv_same log_inv_same)
next
  case (r_take e)
  then show ?case by simp
next
  case (r_work e)
  then show ?case by (simp add: log_inv_set_cmd cmd_step_def)
next
  case (r_release e)
  then show ?case by simp
next
  case (r_wake e ev)
  then show ?case by simp
next
  case (r_found e ev)
  then have "log_inv (e\<lparr>e_search := ev, solutions := tl (solutions e)\<rparr>)"
    and "cmd (e\<lparr>e_search := ev, solutions := tl (solutions e)\<rparr>) = C_WORK"
    by simp_all
  from log_inv_set_cmd [OF this(1), of C_WAIT] this(2) r_found.IH show ?case
    by (simp add: cmd_step_def)
next
  case (r_over e ev)
  then have "log_inv (e\<lparr>e_search := ev\<rparr>)" and "cmd (e\<lparr>e_search := ev\<rparr>) = C_WORK"
    by simp_all
  from log_inv_set_cmd [OF this(1), of C_WAIT] this(2) r_over.IH show ?case
    by (simp add: cmd_step_def)
next
  case (r_acquire e)
  then show ?case by simp
next
  case (r_terminate e)
  then show ?case by (simp add: log_inv_set_cmd cmd_step_def)
next
  case (r_destroyed e)
  then show ?case by simp
qed

lemma next_loop_reach:
  "reachable x In_next_loop e \<Longrightarrow>
   (next_loop x e es = Returned r e' \<longrightarrow> reachable x Outside e') \<and>
   (next_loop x e es = Waiting e' \<longrightarrow> reachable x In_next_loop e')"
proof (induction x e es rule: next_loop.induct)
  case (1 x e)
  then show ?case by auto
next
  case (2 x e k es)
  show ?case
  proof (cases "can_run k e")
    case False
    with 2 show ?thesis by simp
  next
    case True
    show ?thesis
    proof (cases "DfsWorker_run x k e")
      case None
      with True show ?thesis by simp
    next
      case (Some a)
      obtain rs e1 where a: "a = (rs, e1)" by (cases a)
      from Some a have "DfsWorker_run x k e = Some (rs, e1)" by simp
      from r_run [OF "2.prems" True this] have "reachable x In_next_loop e1" .
      with "2.IH"(1) [OF True Some a [symmetric]] True Some a show ?thesis by simp
    qed
  qed
next
  case (3 x e es)
  show ?case
  proof (cases "Event_wait (e_search e)")
    case None
    with 3 show ?thesis by simp
  next
    case (Some ev)
    show ?thesis
    proof (cases "solutions e \<noteq> []")
      case True
      from r_acquire [OF r_found [OF "3.prems" Some True]]
      have "reachable x Outside
              (DfsEngine_block (e\<lparr>e_search := ev, solutions := tl (solutions e)\<rparr>))"
        by (simp add: DfsEngine_block_def)
      with Some True show ?thesis by auto
    next
      case False
      then have emp: "solutions e = []" by simp
      show ?thesis
      proof (cases "n_busy e = NULL \<or> has_stopped e")
        case True
        from r_acquire [OF r_over [OF "3.prems" Some emp True]]
        have "reachable x Outside (DfsEngine_block (e\<lparr>e_search := ev\<rparr>))"
          by (simp add: DfsEngine_block_def)
        with Some emp True show ?thesis by auto
      next
        case nb: False
        from r_wake [OF "3.prems" Some emp nb]
        have "reachable x In_next_loop (e\<lparr>e_search := ev\<rparr>)" .
        with "3.IH"(2) [OF Some refl] emp nb Some show ?thesis by simp
      qed
    qed
  qed
qed

lemma next_reach:
  assumes "reachable x Outside e"
  shows "(DfsEngine_next x e sched = Returned r e' \<longrightarrow> reachable x Outside e') \<and>
         (DfsEngine_next x e sched = Waiting e' \<longrightarrow> reachable x In_next_loop e')"
proof (cases "solutions e \<noteq> []")
  case True
  with r_take [OF assms] show ?thesis by (auto simp: DfsEngine_next_def)
next
  case False
  then have emp: "solutions e = []" by simp
  show ?thesis
  proof (cases "n_busy e = 0 \<or> has_stopped e")
    case True
    with assms emp show ?thesis by (auto simp: DfsEngine_next_def)
  next
    case nb: False
    from r_release [OF r_work [OF assms emp nb]]
    have "reachable x In_next_loop (DfsEngine_release C_WORK e)"
      by (simp add: DfsEngine_release_def)
    from next_loop_reach [OF this, of sched r e'] emp nb show ?thesis
      by (simp add: DfsEngine_next_def)
  qed
qed

lemma failed_root_reachable: "reachable (tree_ext never_stop) Outside failed_root"
  by (rule r_ctor [OF failed_root_ctor])

lemma exhausted_reachable: "reachable (tree_ext never_stop) Outside exhausted"
  using next_reach [OF failed_root_reachable, of "[Run 0, Wake]" None exhausted] failed_root_next
  by simp

lemma releasing_reachable: "reachable (tree_ext never_stop) In_next_release releasing"
  unfolding releasing_def
  by (rule r_work [OF failed_root_reachable]) (simp_all add: failed_root_eq)

lemma working_reachable: "reachable (tree_ext never_stop) In_next_loop working"
proof -
  have "working = releasing\<lparr>m_wait := False\<rparr>"
    by (simp add: working_def releasing_def DfsEngine_release_def)
  with r_release [OF releasing_reachable] show ?thesis by simp
qed

lemma working_run: "DfsWorker_run (tree_ext never_stop) 0 working = Some ([Idle], signalled)"
  by (simp add: signalled_eq working_def failed_root_eq eval_defs)

lemma signalled_reachable: "reachable (tree_ext never_stop) In_next_loop signalled"
proof -
  have "can_run 0 working"
    by (simp add: can_run_def working_def failed_root_eq DfsEngine_release_def set_cmd_def)
  from r_run [OF working_reachable this working_run] show ?thesis .
qed

lemma blocking_reachable: "reachable (tree_ext never_stop) In_next_block blocking"
  unfolding blocking_def
  by (rule r_over [OF signalled_reachable])
    (simp_all add: signalled_eq failed_root_eq Event_wait_def NULL_def)



subsection \<open>The claims\<close>

text \<open>
  C1. In every engine state in which the queue of solutions is empty and \<^verbatim>\<open>n_busy\<close> is 0
  or \<^verbatim>\<open>has_stopped\<close> is set, \<^verbatim>\<open>next()\<close> returns no solution, at once and whatever the
  workers do. Inside the wait loop, a caller that is woken with an empty queue returns no
  solution exactly when \<^verbatim>\<open>n_busy\<close> is 0 or \<^verbatim>\<open>has_stopped\<close> is set: the comparison of
  \<^verbatim>\<open>n_busy\<close> with \<^verbatim>\<open>NULL\<close> there is the test for zero.
\<close>

theorem next_exhausted_or_stopped:
  assumes "solutions e = []"
  shows "(n_busy e = 0 \<or> has_stopped e \<longrightarrow> DfsEngine_next x e sched = Returned None e) \<and>
         (p_s (e_search e) \<longrightarrow>
            ((\<exists>e'. next_loop x e [Wake] = Returned None e') \<longleftrightarrow> (n_busy e = 0 \<or> has_stopped e)))"
  using assms by (auto simp: DfsEngine_next_def Event_wait_def NULL_def Let_def)

theorem next_exhausted_or_stopped_witness:
  "solutions exhausted = [] \<and> n_busy exhausted = 0 \<and>
   DfsEngine_next (tree_ext never_stop) exhausted [Run 0, Wake] = Returned None exhausted \<and>
   solutions signalled = [] \<and> n_busy signalled = 0 \<and> p_s (e_search signalled) \<and>
   (\<exists>e'. next_loop (tree_ext never_stop) signalled [Wake] = Returned None e')"
proof -
  have s: "solutions exhausted = []" and b: "n_busy exhausted = 0"
    by (simp_all add: exhausted_def failed_root_eq)
  have s': "solutions signalled = []" and b': "n_busy signalled = 0"
    and p': "p_s (e_search signalled)"
    by (simp_all add: signalled_eq failed_root_eq)
  from next_exhausted_or_stopped [OF s, of "tree_ext never_stop" "[Run 0, Wake]"] b
  have 1: "DfsEngine_next (tree_ext never_stop) exhausted [Run 0, Wake] = Returned None exhausted"
    by blast
  from next_exhausted_or_stopped [OF s', of "tree_ext never_stop" "[]"] b' p'
  have 2: "\<exists>e'. next_loop (tree_ext never_stop) signalled [Wake] = Returned None e'"
    by blast
  from s b 1 s' b' p' 2 show ?thesis by blast
qed

text \<open>
  C2. \<^verbatim>\<open>DfsEngine::statistics()\<close> does not sum the counters of the workers: it returns a
  fresh \<^verbatim>\<open>Statistics\<close> object. For the engine with one worker on a failed root, after
  the first \<^verbatim>\<open>next()\<close> has returned no solution, the worker has counted one failure,
  which \<^verbatim>\<open>DfsWorker::statistics()\<close> reports, and the engine reports none.
\<close>

theorem statistics_ignores_workers:
  "DfsEngine_ctor (tree_ext never_stop) Failed 0 (options 1) raw_engine = Some failed_root \<and>
   DfsEngine_next (tree_ext never_stop) failed_root [Run 0, Wake] = Returned None exhausted \<and>
   \<not> DfsEngine_stopped exhausted \<and>
   fail (DfsWorker_statistics (worker exhausted ! 0)) = 1 \<and>
   fail (DfsEngine_statistics (tree_ext never_stop) exhausted) = 0"
  using failed_root_ctor failed_root_next
  by (simp add: exhausted_def failed_root_eq DfsEngine_statistics_def DfsWorker_statistics_def
      DfsEngine_stopped_def tree_ext_def Statistics_zero_def)

text \<open>
  C3. A worker-side update of the search state calls \<^verbatim>\<open>e_search.signal()\<close> only if the
  predicate \<^verbatim>\<open>signal()\<close> held before the update, for the report of a solution, of a stop
  and of an idle worker; the idle report signals only when it takes \<^verbatim>\<open>n_busy\<close> from 1
  to 0.
\<close>

theorem signal_only_if_notable:
  "(n_signal (e_search (DfsEngine_solution s e)) \<noteq> n_signal (e_search e) \<longrightarrow> DfsEngine_signal e) \<and>
   (n_signal (e_search (DfsEngine_stop e)) \<noteq> n_signal (e_search e) \<longrightarrow> DfsEngine_signal e) \<and>
   (n_signal (e_search (DfsEngine_idle e)) \<noteq> n_signal (e_search e) \<longrightarrow>
      DfsEngine_signal e \<and> n_busy (DfsEngine_idle e) = 0 \<and> n_busy e = 1)"
  by (auto simp: DfsEngine_solution_def DfsEngine_stop_def DfsEngine_idle_def Let_def)

theorem signal_only_if_notable_witness:
  "n_signal (e_search (DfsEngine_solution Solved working)) \<noteq> n_signal (e_search working) \<and>
   n_signal (e_search (DfsEngine_stop working)) \<noteq> n_signal (e_search working) \<and>
   n_signal (e_search (DfsEngine_idle working)) \<noteq> n_signal (e_search working) \<and>
   DfsEngine_signal working \<and> n_busy (DfsEngine_idle working) = 0 \<and> n_busy working = 1"
proof -
  have 1: "n_signal (e_search (DfsEngine_solution Solved working)) \<noteq> n_signal (e_search working)"
    by (simp add: working_def failed_root_eq eval_defs)
  have 2: "n_signal (e_search (DfsEngine_stop working)) \<noteq> n_signal (e_search working)"
    by (simp add: working_def failed_root_eq eval_defs)
  have 3: "n_signal (e_search (DfsEngine_idle working)) \<noteq> n_signal (e_search working)"
    by (simp add: working_def failed_root_eq eval_defs)
  from signal_only_if_notable [of Solved working] 1 2 3 show ?thesis by blast
qed

text \<open>
  C4, as stated, fails: \<^verbatim>\<open>block()\<close> and \<^verbatim>\<open>release(c)\<close> are two statements each,
  and between the two the lock and the command disagree. Inside the \<^verbatim>\<open>block()\<close> that
  ends \<^verbatim>\<open>next()\<close> the command is already \<^verbatim>\<open>C_WAIT\<close> and the lock is not yet held;
  inside the \<^verbatim>\<open>release(C_WORK)\<close> of \<^verbatim>\<open>next()\<close> the command is already \<^verbatim>\<open>C_WORK\<close>
  and the lock is still held.
\<close>

theorem wait_lock_window:
  "reachable (tree_ext never_stop) In_next_block blocking \<and>
   cmd blocking = C_WAIT \<and> \<not> m_wait blocking \<and>
   reachable (tree_ext never_stop) In_next_release releasing \<and>
   cmd releasing = C_WORK \<and> m_wait releasing"
  using blocking_reachable releasing_reachable
  by (simp add: blocking_def releasing_def failed_root_eq signalled_eq)

text \<open>
  C4, amended. In every reachable state in which the owner thread is not between the two
  statements of \<^verbatim>\<open>block()\<close> or of \<^verbatim>\<open>release(c)\<close>, the engine holds the wait lock
  exactly when the command is \<^verbatim>\<open>C_WAIT\<close>. \<^verbatim>\<open>block()\<close> publishes \<^verbatim>\<open>C_WAIT\<close> and then
  acquires the lock: between the two the command is \<^verbatim>\<open>C_WAIT\<close> and the lock is not
  held. \<^verbatim>\<open>release(c)\<close> publishes \<open>c\<close> and then releases the lock: between the two the
  command is \<^verbatim>\<open>C_WORK\<close> or \<^verbatim>\<open>C_TERMINATE\<close> and the lock is still held. The commands
  published so far start with \<^verbatim>\<open>C_WAIT\<close>, alternate between \<^verbatim>\<open>C_WAIT\<close> and
  \<^verbatim>\<open>C_WORK\<close>, and \<^verbatim>\<open>C_TERMINATE\<close> can only be the last of them, after a
  \<^verbatim>\<open>C_WAIT\<close>. A call of \<^verbatim>\<open>next()\<close> on a state outside leads to a reachable state
  outside when it returns, and inside its loop while it waits; the
  \<^verbatim>\<open>release(C_TERMINATE)\<close> of the destructor leads to a reachable state.
\<close>

theorem wait_lock_outside_block_release:
  assumes "reachable x p e"
  shows "pc_inv p e \<and>
         (\<not> in_block_or_release p \<longrightarrow> (m_wait e \<longleftrightarrow> cmd e = C_WAIT)) \<and>
         (in_block_or_release p \<longrightarrow> (m_wait e \<longleftrightarrow> cmd e \<noteq> C_WAIT)) \<and>
         cmd_order (cmd_log e) \<and> last (cmd_log e) = cmd e \<and>
         C_TERMINATE \<notin> set (butlast (cmd_log e)) \<and>
         (p = Outside \<longrightarrow>
            (DfsEngine_next x e sched = Returned r e' \<longrightarrow> reachable x Outside e') \<and>
            (DfsEngine_next x e sched = Waiting e' \<longrightarrow> reachable x In_next_loop e') \<and>
            reachable x Destroyed (DfsEngine_release C_TERMINATE e))"
proof -
  from reachable_inv [OF assms] have pi: "pc_inv p e" and li: "log_inv e" by simp_all
  from pi have 1: "\<not> in_block_or_release p \<longrightarrow> (m_wait e \<longleftrightarrow> cmd e = C_WAIT)"
    by (cases p) simp_all
  from pi have 2: "in_block_or_release p \<longrightarrow> (m_wait e \<longleftrightarrow> cmd e \<noteq> C_WAIT)"
    by (cases p) simp_all
  from li have 3: "cmd_order (cmd_log e)" "last (cmd_log e) = cmd e"
    by (simp_all add: log_inv_def)
  from 3(1) have "cmd_chain (cmd_log e)" by (simp add: cmd_order_def)
  then have 4: "C_TERMINATE \<notin> set (butlast (cmd_log e))" by (rule cmd_chain_terminate)
  have 5: "p = Outside \<longrightarrow>
            (DfsEngine_next x e sched = Returned r e' \<longrightarrow> reachable x Outside e') \<and>
            (DfsEngine_next x e sched = Waiting e' \<longrightarrow> reachable x In_next_loop e')"
    using assms next_reach [of x e sched r e'] by blast
  have 6: "p = Outside \<longrightarrow> reachable x Destroyed (DfsEngine_release C_TERMINATE e)"
  proof
    assume "p = Outside"
    with assms have "reachable x Outside e" by simp
    from r_destroyed [OF r_terminate [OF this]] show
      "reachable x Destroyed (DfsEngine_release C_TERMINATE e)"
      by (simp add: DfsEngine_release_def)
  qed
  from pi 1 2 3 4 5 6 show ?thesis by blast
qed

theorem wait_lock_outside_block_release_witness:
  "reachable (tree_ext never_stop) Outside exhausted \<and>
   m_wait exhausted \<and> cmd exhausted = C_WAIT \<and>
   cmd_log exhausted = [C_WAIT, C_WORK, C_WAIT] \<and> cmd_order (cmd_log exhausted) \<and>
   reachable (tree_ext never_stop) In_next_release releasing \<and>
   m_wait releasing \<and> cmd releasing \<noteq> C_WAIT"
proof -
  note a = wait_lock_outside_block_release [OF exhausted_reachable, of "[]" None exhausted]
  note b = wait_lock_outside_block_release [OF releasing_reachable, of "[]" None releasing]
  from a have 1: "m_wait exhausted \<and> cmd exhausted = C_WAIT \<and> cmd_order (cmd_log exhausted)"
    by simp
  from b have 2: "m_wait releasing \<and> cmd releasing \<noteq> C_WAIT" by simp
  have 3: "cmd_log exhausted = [C_WAIT, C_WORK, C_WAIT]" by (simp add: exhausted_def)
  from 1 2 3 exhausted_reachable releasing_reachable show ?thesis by blast
qed

text \<open>
  C5, as stated, fails: the constructor starts the threads before it assigns
  \<^verbatim>\<open>n_busy\<close> and \<^verbatim>\<open>has_stopped\<close>. With one worker, in the state right after the
  thread has been started \<^verbatim>\<open>n_busy\<close> and \<^verbatim>\<open>has_stopped\<close> still hold what the memory
  of the object held, here 0 and true.
\<close>

theorem threads_started_before_n_busy_set:
  "thread (DfsEngine_trace (tree_ext never_stop) Solved 0 (options 1) raw_engine ! 4) =
     [\<lparr>runs = 0, live = True\<rparr>] \<and>
   n_busy (DfsEngine_trace (tree_ext never_stop) Solved 0 (options 1) raw_engine ! 4) = 0 \<and>
   has_stopped (DfsEngine_trace (tree_ext never_stop) Solved 0 (options 1) raw_engine ! 4) \<and>
   threads (options 1) = 1"
  by (simp add: eval_defs)

text \<open>
  C5, amended. For at least one worker the constructor returns an engine whose workers are
  the first on the root and the others on nothing, with the command \<^verbatim>\<open>C_WAIT\<close>, the
  wait lock held, \<^verbatim>\<open>_n_not_terminated\<close> and \<^verbatim>\<open>n_busy\<close> the number of workers,
  \<^verbatim>\<open>has_stopped\<close> false and one live thread per worker. Its statements come in this
  order: the worker on the root is allocated, then the other workers, then \<^verbatim>\<open>block()\<close>
  publishes \<^verbatim>\<open>C_WAIT\<close> and acquires the lock, then the threads are started, then
  \<^verbatim>\<open>_n_not_terminated\<close>, \<^verbatim>\<open>n_busy\<close> and \<^verbatim>\<open>has_stopped\<close> are assigned, one after
  the other. So in every state of the construction in which the lock is held all workers
  are allocated, in every state in which threads have been started the lock is held, and
  in every state in which no thread has been started the three fields still hold what the
  memory of the object held.
\<close>

theorem ctor_order:
  assumes "threads opts \<noteq> 0"
  shows "\<exists>e. DfsEngine_ctor x s sz opts raw = Some e \<and>
           worker e = ctor_workers x s sz opts \<and> length (worker e) = unat (threads opts) \<and>
           worker e ! 0 = DfsWorker_init x opts sz (Some s) \<and>
           (\<forall>i. 0 < i \<and> i < unat (threads opts) \<longrightarrow> worker e ! i = DfsWorker_init x opts sz None) \<and>
           cmd e = C_WAIT \<and> m_wait e \<and> n_busy e = threads opts \<and> \<not> has_stopped e \<and>
           n_not_terminated e = threads opts \<and>
           thread e = map (\<lambda>i. \<lparr>runs = i, live = True\<rparr>) [0..<unat (threads opts)] \<and>
           map (\<lambda>e'. (length (worker e'), cmd_log e', m_wait e', length (thread e')))
             (DfsEngine_trace x s sz opts raw) =
             [(0, [], False, 0), (1, [], False, 0), (unat (threads opts), [], False, 0),
              (unat (threads opts), [C_WAIT], True, 0),
              (unat (threads opts), [C_WAIT], True, unat (threads opts)),
              (unat (threads opts), [C_WAIT], True, unat (threads opts)),
              (unat (threads opts), [C_WAIT], True, unat (threads opts)),
              (unat (threads opts), [C_WAIT], True, unat (threads opts))] \<and>
           map (\<lambda>e'. (n_not_terminated e', n_busy e', has_stopped e'))
             (DfsEngine_trace x s sz opts raw) =
             [(n_not_terminated raw, n_busy raw, has_stopped raw),
              (n_not_terminated raw, n_busy raw, has_stopped raw),
              (n_not_terminated raw, n_busy raw, has_stopped raw),
              (n_not_terminated raw, n_busy raw, has_stopped raw),
              (n_not_terminated raw, n_busy raw, has_stopped raw),
              (threads opts, n_busy raw, has_stopped raw),
              (threads opts, threads opts, has_stopped raw),
              (threads opts, threads opts, False)] \<and>
           (\<forall>e' \<in> set (DfsEngine_trace x s sz opts raw).
              (worker e' \<noteq> worker e \<longrightarrow>
                 (worker e' = [] \<or> worker e' = [DfsWorker_init x opts sz (Some s)]) \<and>
                 cmd_log e' = [] \<and> \<not> m_wait e' \<and> thread e' = []) \<and>
              (m_wait e' \<longrightarrow> worker e' = worker e \<and> cmd e' = C_WAIT \<and> cmd_log e' = [C_WAIT]) \<and>
              (thread e' \<noteq> [] \<longrightarrow>
                 thread e' = thread e \<and> worker e' = worker e \<and> cmd e' = C_WAIT \<and> m_wait e') \<and>
              (thread e' = [] \<longrightarrow>
                 n_busy e' = n_busy raw \<and> has_stopped e' = has_stopped raw \<and>
                 n_not_terminated e' = n_not_terminated raw))"
proof -
  let ?e = "last (DfsEngine_trace x s sz opts raw)"
  let ?n = "unat (threads opts)"
  from assms have c: "DfsEngine_ctor x s sz opts raw = Some ?e"
    by (simp add: DfsEngine_ctor_def)
  have l: "cmd ?e = C_WAIT \<and> m_wait ?e \<and> n_busy ?e = threads opts \<and> \<not> has_stopped ?e \<and>
     n_not_terminated ?e = threads opts \<and>
     worker ?e = ctor_workers x s sz opts \<and>
     thread ?e = map (\<lambda>i. \<lparr>runs = i, live = True\<rparr>) [0..<?n]"
    using ctor_last [OF refl, of x s sz opts raw] by (simp add: ctor_workers_def)
  have pos: "0 < ?n" by (rule unat_threads_pos [OF assms])
  have len: "length (ctor_workers x s sz opts) = ?n"
    using pos by (simp add: ctor_workers_def)
  have w0: "ctor_workers x s sz opts ! 0 = DfsWorker_init x opts sz (Some s)"
    by (simp add: ctor_workers_def)
  have wi: "\<forall>i. 0 < i \<and> i < ?n \<longrightarrow> ctor_workers x s sz opts ! i = DfsWorker_init x opts sz None"
    by (auto simp: ctor_workers_def nth_Cons split: nat.splits)
  have ne: "[0..<?n] \<noteq> []" using pos by simp
  have m1: "map (\<lambda>e'. (length (worker e'), cmd_log e', m_wait e', length (thread e')))
             (DfsEngine_trace x s sz opts raw) =
             [(0, [], False, 0), (1, [], False, 0), (?n, [], False, 0), (?n, [C_WAIT], True, 0),
              (?n, [C_WAIT], True, ?n), (?n, [C_WAIT], True, ?n), (?n, [C_WAIT], True, ?n),
              (?n, [C_WAIT], True, ?n)]"
    using pos
    by (simp add: DfsEngine_trace_def Let_def DfsEngine_block_def set_cmd_def DfsEngine_workers_def)
  have m2: "map (\<lambda>e'. (n_not_terminated e', n_busy e', has_stopped e'))
             (DfsEngine_trace x s sz opts raw) =
             [(n_not_terminated raw, n_busy raw, has_stopped raw),
              (n_not_terminated raw, n_busy raw, has_stopped raw),
              (n_not_terminated raw, n_busy raw, has_stopped raw),
              (n_not_terminated raw, n_busy raw, has_stopped raw),
              (n_not_terminated raw, n_busy raw, has_stopped raw),
              (threads opts, n_busy raw, has_stopped raw),
              (threads opts, threads opts, has_stopped raw),
              (threads opts, threads opts, False)]"
    by (simp add: DfsEngine_trace_def Let_def DfsEngine_block_def set_cmd_def DfsEngine_workers_def)
  have tr: "\<forall>e' \<in> set (DfsEngine_trace x s sz opts raw).
              (worker e' \<noteq> ctor_workers x s sz opts \<longrightarrow>
                 (worker e' = [] \<or> worker e' = [DfsWorker_init x opts sz (Some s)]) \<and>
                 cmd_log e' = [] \<and> \<not> m_wait e' \<and> thread e' = []) \<and>
              (m_wait e' \<longrightarrow>
                 worker e' = ctor_workers x s sz opts \<and> cmd e' = C_WAIT \<and> cmd_log e' = [C_WAIT]) \<and>
              (thread e' \<noteq> [] \<longrightarrow>
                 thread e' = map (\<lambda>i. \<lparr>runs = i, live = True\<rparr>) [0..<?n] \<and>
                 worker e' = ctor_workers x s sz opts \<and> cmd e' = C_WAIT \<and> m_wait e') \<and>
              (thread e' = [] \<longrightarrow>
                 n_busy e' = n_busy raw \<and> has_stopped e' = has_stopped raw \<and>
                 n_not_terminated e' = n_not_terminated raw)"
    using ne
    by (simp add: DfsEngine_trace_def Let_def DfsEngine_block_def set_cmd_def DfsEngine_workers_def
        ctor_workers_def)
  from l have we: "worker ?e = ctor_workers x s sz opts"
    and te: "thread ?e = map (\<lambda>i. \<lparr>runs = i, live = True\<rparr>) [0..<?n]"
    by simp_all
  from tr have tr': "\<forall>e' \<in> set (DfsEngine_trace x s sz opts raw).
              (worker e' \<noteq> worker ?e \<longrightarrow>
                 (worker e' = [] \<or> worker e' = [DfsWorker_init x opts sz (Some s)]) \<and>
                 cmd_log e' = [] \<and> \<not> m_wait e' \<and> thread e' = []) \<and>
              (m_wait e' \<longrightarrow> worker e' = worker ?e \<and> cmd e' = C_WAIT \<and> cmd_log e' = [C_WAIT]) \<and>
              (thread e' \<noteq> [] \<longrightarrow>
                 thread e' = thread ?e \<and> worker e' = worker ?e \<and> cmd e' = C_WAIT \<and> m_wait e') \<and>
              (thread e' = [] \<longrightarrow>
                 n_busy e' = n_busy raw \<and> has_stopped e' = has_stopped raw \<and>
                 n_not_terminated e' = n_not_terminated raw)"
    unfolding we te .
  from l len w0 wi have f: "worker ?e = ctor_workers x s sz opts" "length (worker ?e) = ?n"
    "worker ?e ! 0 = DfsWorker_init x opts sz (Some s)"
    "\<forall>i. 0 < i \<and> i < ?n \<longrightarrow> worker ?e ! i = DfsWorker_init x opts sz None"
    "cmd ?e = C_WAIT" "m_wait ?e" "n_busy ?e = threads opts" "\<not> has_stopped ?e"
    "n_not_terminated ?e = threads opts"
    "thread ?e = map (\<lambda>i. \<lparr>runs = i, live = True\<rparr>) [0..<?n]"
    by simp_all
  show ?thesis
  proof (rule exI [of _ ?e], intro conjI)
    show "DfsEngine_ctor x s sz opts raw = Some ?e" by (rule c)
  qed (fact f m1 m2 tr')+
qed

theorem ctor_order_witness:
  "threads (options 2) \<noteq> 0 \<and>
   DfsEngine_ctor (tree_ext never_stop) (Branch [Failed, Solved]) 0 (options 2) raw_engine = Some pair \<and>
   length (worker pair) = 2 \<and>
   cur (worker pair ! 0) = Some (Branch [Failed, Solved]) \<and>
   cur (worker pair ! 1) = None \<and> path (worker pair ! 1) = [] \<and> \<not> idle (worker pair ! 1) \<and>
   cmd pair = C_WAIT \<and> m_wait pair \<and> n_busy pair = 2 \<and> \<not> has_stopped pair \<and>
   length (thread pair) = 2"
proof -
  have t: "threads (options 2) \<noteq> 0" by (simp add: options_def)
  from ctor_order [OF t, of "tree_ext never_stop" "Branch [Failed, Solved]" 0 raw_engine]
  obtain e where e: "DfsEngine_ctor (tree_ext never_stop) (Branch [Failed, Solved]) 0 (options 2)
                       raw_engine = Some e"
    and f: "length (worker e) = unat (threads (options 2))"
      "worker e ! 0 = DfsWorker_init (tree_ext never_stop) (options 2) 0 (Some (Branch [Failed, Solved]))"
      "\<forall>i. 0 < i \<and> i < unat (threads (options 2)) \<longrightarrow>
         worker e ! i = DfsWorker_init (tree_ext never_stop) (options 2) 0 None"
      "cmd e = C_WAIT" "m_wait e" "n_busy e = threads (options 2)" "\<not> has_stopped e"
      "thread e = map (\<lambda>i. \<lparr>runs = i, live = True\<rparr>) [0..<unat (threads (options 2))]"
    by (elim exE conjE) (rule that)
  from e pair_ctor have p: "e = pair" by simp
  have u: "unat (threads (options 2)) = 2" "threads (options 2) = 2" by (simp_all add: options_def)
  from f(3) u have w1: "worker e ! 1 = DfsWorker_init (tree_ext never_stop) (options 2) 0 None"
    by simp
  have i0: "cur (DfsWorker_init (tree_ext never_stop) (options 2) 0 (Some (Branch [Failed, Solved]))) =
              Some (Branch [Failed, Solved])"
    by (simp add: DfsWorker_init_def tree_ext_def Let_def)
  from f(2) i0 have c0: "cur (worker e ! 0) = Some (Branch [Failed, Solved])" by simp
  from w1 init_None [of "tree_ext never_stop" "options 2" 0]
  have c1: "cur (worker e ! 1) = None \<and> path (worker e ! 1) = [] \<and> \<not> idle (worker e ! 1)"
    by simp
  from f(1) u have l2: "length (worker e) = 2" by simp
  from f(8) u have t2: "length (thread e) = 2" by simp
  from f(6) u have nb: "n_busy e = 2" by simp
  from c1 have c1': "cur (worker e ! 1) = None" "path (worker e ! 1) = []" "\<not> idle (worker e ! 1)"
    by simp_all
  from t pair_ctor l2 c0 c1' f(4,5,7) nb t2 show ?thesis unfolding p
    by - (intro conjI; assumption)
qed

text \<open>
  C6. In an iteration of the run loop under \<^verbatim>\<open>C_WORK\<close> in which the stop predicate
  does not fire and the status of the current space is a branching, \<^verbatim>\<open>path.push\<close> gets
  a clone of the current space if \<open>d\<close> is 0 or at least \<^verbatim>\<open>c_d\<close>, and then \<open>d\<close>
  becomes 1; otherwise it gets no clone and \<open>d\<close> grows by one, without wrapping around.
  In both cases the frame is pushed, alternative 0 is committed on the current space, and
  nothing is reported to the engine.
\<close>

theorem branch_snapshot_rule:
  assumes "cmd e = C_WORK" and "k < length (worker e)"
    and "\<not> idle (worker e ! k)" and "cur (worker e ! k) = Some c"
    and "\<not> Worker_stop x (Worker_start x (stats (worker e ! k))) (Path_size (path (worker e ! k)))"
    and "Space_status x c = (SS_BRANCH, c1)"
    and "Path_push x (path (worker e ! k)) c1
           (if d (worker e ! k) = 0 \<or> c_d (opt e) \<le> d (worker e ! k)
            then Some (Space_clone x True c1) else None) = (ds, p', c2)"
  shows "\<exists>e'. DfsWorker_run x k e = Some ([], e') \<and>
           path (worker e' ! k) = p' \<and>
           p' = \<lparr>desc = ds,
                 snapshot = (if d (worker e ! k) = 0 \<or> c_d (opt e) \<le> d (worker e ! k)
                             then Some (Space_clone x True c1) else None),
                 next_alt = 1, steal_alt = 1\<rparr> # path (worker e ! k) \<and>
           cur (worker e' ! k) = Some (Space_commit x c2 ds 0) \<and>
           d (worker e' ! k) =
             (if d (worker e ! k) = 0 \<or> c_d (opt e) \<le> d (worker e ! k) then 1 else d (worker e ! k) + 1) \<and>
           (\<not> (d (worker e ! k) = 0 \<or> c_d (opt e) \<le> d (worker e ! k)) \<longrightarrow>
              unat (d (worker e' ! k)) = unat (d (worker e ! k)) + 1)"
proof -
  let ?r = "run_explore x k c e"
  have run: "DfsWorker_run x k e = Some (fst ?r, snd ?r)"
    using assms(1,3,4) by (simp add: DfsWorker_run_def run_WORK_def)
  note b = run_explore_branch [OF assms(2,5,6,7)]
  have p: "p' = \<lparr>desc = ds,
                 snapshot = (if d (worker e ! k) = 0 \<or> c_d (opt e) \<le> d (worker e ! k)
                             then Some (Space_clone x True c1) else None),
                 next_alt = 1, steal_alt = 1\<rparr> # path (worker e ! k)"
    using assms(7) by (auto simp: Path_push_def split: prod.splits)
  have w: "\<not> (d (worker e ! k) = 0 \<or> c_d (opt e) \<le> d (worker e ! k)) \<longrightarrow>
              unat (d (worker (snd ?r) ! k)) = unat (d (worker e ! k)) + 1"
  proof
    assume n: "\<not> (d (worker e ! k) = 0 \<or> c_d (opt e) \<le> d (worker e ! k))"
    then have "d (worker e ! k) < c_d (opt e)" by (simp add: not_le)
    from word_succ_no_wrap [OF this] b n show
      "unat (d (worker (snd ?r) ! k)) = unat (d (worker e ! k)) + 1" by simp
  qed
  from run b p w show ?thesis by simp
qed

theorem branch_snapshot_rule_witness:
  "\<exists>e'. DfsWorker_run (tree_ext never_stop) 0 branching = Some ([], e') \<and>
     d (worker branching ! 0) = 1 \<and> c_d (opt branching) = 8 \<and>
     path (worker e' ! 0) =
       \<lparr>desc = [Solved, Failed], snapshot = None, next_alt = 1, steal_alt = 1\<rparr> #
       path (worker branching ! 0) \<and>
     cur (worker e' ! 0) = Some Solved \<and> d (worker e' ! 0) = 2 \<and>
     unat (d (worker e' ! 0)) = unat (d (worker branching ! 0)) + 1"
proof -
  let ?x = "tree_ext never_stop"
  have 1: "cmd branching = C_WORK" "0 < length (worker branching)"
    "\<not> idle (worker branching ! 0)" "cur (worker branching ! 0) = Some (Branch [Solved, Failed])"
    by (simp_all add: branching_eq)
  have 2: "\<not> Worker_stop ?x (Worker_start ?x (stats (worker branching ! 0)))
             (Path_size (path (worker branching ! 0)))"
    by (simp add: tree_ext_def never_stop_def)
  have 3: "Space_status ?x (Branch [Solved, Failed]) = (SS_BRANCH, Branch [Solved, Failed])"
    by (simp add: tree_ext_def)
  have 4: "Path_push ?x (path (worker branching ! 0)) (Branch [Solved, Failed])
             (if d (worker branching ! 0) = 0 \<or> c_d (opt branching) \<le> d (worker branching ! 0)
              then Some (Space_clone ?x True (Branch [Solved, Failed])) else None) =
           ([Solved, Failed],
            \<lparr>desc = [Solved, Failed], snapshot = None, next_alt = 1, steal_alt = 1\<rparr> #
            path (worker branching ! 0),
            Branch [Solved, Failed])"
    by (simp add: branching_eq tree_ext_def Path_push_def word_8_le_1)
  from branch_snapshot_rule [OF 1 2 3 4]
  show ?thesis by (simp add: branching_eq tree_ext_def tree_commit_def word_8_le_1)
qed

text \<open>
  C7, as stated, fails: after a successful steal \<^verbatim>\<open>find()\<close> leaves the sweep and then
  sleeps like after a sweep without success. Here the second of two workers steals the
  solved alternative from the first, is no longer idle, and has slept 10 ms on return.
\<close>

theorem find_sleeps_after_steal:
  "fst (the (DfsWorker_find (tree_ext never_stop) 1 stealable)) = [Busy] \<and>
   cur (worker (snd (the (DfsWorker_find (tree_ext never_stop) 1 stealable))) ! 1) = Some Solved \<and>
   \<not> idle (worker (snd (the (DfsWorker_find (tree_ext never_stop) 1 stealable))) ! 1) \<and>
   slept (worker stealable ! 1) = 0 \<and>
   slept (worker (snd (the (DfsWorker_find (tree_ext never_stop) 1 stealable))) ! 1) = 10"
  unfolding stealable_find by (simp add: stealable_eq)

text \<open>
  C7, amended. \<^verbatim>\<open>find()\<close> sweeps the workers in index order, passes over itself, asks
  each peer's \<^verbatim>\<open>steal()\<close> and leaves the sweep at the first steal that succeeds, for
  which one busy worker has been reported and after which it is not idle and holds the
  stolen space; without success it stays as it was. Its own path is not touched. In every
  case, also after a successful steal, it then sleeps 10 ms before it returns.
\<close>

theorem find_sleeps_always:
  assumes "DfsWorker_find x k e = Some (rs, e')" and "k < length (worker e)"
  shows "slept (worker e' ! k) = slept (worker e ! k) + 10 \<and>
         path (worker e' ! k) = path (worker e ! k) \<and>
         (rs = [] \<and> idle (worker e' ! k) = idle (worker e ! k) \<and> cur (worker e' ! k) = cur (worker e ! k)
          \<or> rs = [Busy] \<and> \<not> idle (worker e' ! k) \<and> cur (worker e' ! k) \<noteq> None) \<and>
         DfsWorker_find x k e =
           map_option (\<lambda>(rs, e1). (rs, Thread_sleep k 10 e1))
             (find_sweep x k [0..<DfsEngine_workers e] e) \<and>
         find_sweep x k (k # js) e0 = find_sweep x k js e0 \<and>
         (i \<noteq> k \<and> DfsWorker_steal x i e0 = Some (Some t, rs1, e1) \<longrightarrow>
            find_sweep x k (i # js) e0 =
              Some (rs1, set_worker k ((worker e1 ! k)\<lparr>idle := False, cur := Some t\<rparr>) e1)) \<and>
         (i \<noteq> k \<and> DfsWorker_steal x i e0 = Some (None, rs1, e1) \<longrightarrow>
            find_sweep x k (i # js) e0 =
              map_option (\<lambda>(rs2, e2). (rs1 @ rs2, e2)) (find_sweep x k js e1))"
proof -
  from assms(1) obtain em where fs: "find_sweep x k [0..<DfsEngine_workers e] e = Some (rs, em)"
    and e': "e' = Thread_sleep k 10 em"
    by (auto simp: DfsWorker_find_def split: option.splits)
  from find_sweep_self [OF fs assms(2)] e' assms(2)
  have 1: "slept (worker e' ! k) = slept (worker e ! k) + 10 \<and>
         path (worker e' ! k) = path (worker e ! k) \<and>
         (rs = [] \<and> idle (worker e' ! k) = idle (worker e ! k) \<and> cur (worker e' ! k) = cur (worker e ! k)
          \<or> rs = [Busy] \<and> \<not> idle (worker e' ! k) \<and> cur (worker e' ! k) \<noteq> None)"
    by (simp add: Thread_sleep_def)
  have 2: "DfsWorker_find x k e =
           map_option (\<lambda>(rs, e1). (rs, Thread_sleep k 10 e1))
             (find_sweep x k [0..<DfsEngine_workers e] e)"
    by (simp add: DfsWorker_find_def split: option.splits)
  have 3: "find_sweep x k (k # js) e0 = find_sweep x k js e0" by simp
  have 4: "i \<noteq> k \<and> DfsWorker_steal x i e0 = Some (Some t, rs1, e1) \<longrightarrow>
            find_sweep x k (i # js) e0 =
              Some (rs1, set_worker k ((worker e1 ! k)\<lparr>idle := False, cur := Some t\<rparr>) e1)"
    by simp
  have 5: "i \<noteq> k \<and> DfsWorker_steal x i e0 = Some (None, rs1, e1) \<longrightarrow>
            find_sweep x k (i # js) e0 =
              map_option (\<lambda>(rs2, e2). (rs1 @ rs2, e2)) (find_sweep x k js e1)"
    by (simp split: option.splits)
  from 1 have 0: "slept (worker e' ! k) = slept (worker e ! k) + 10"
    "path (worker e' ! k) = path (worker e ! k)"
    "rs = [] \<and> idle (worker e' ! k) = idle (worker e ! k) \<and> cur (worker e' ! k) = cur (worker e ! k)
     \<or> rs = [Busy] \<and> \<not> idle (worker e' ! k) \<and> cur (worker e' ! k) \<noteq> None"
    by simp_all
  from 0 2 3 4 5 show ?thesis by - (intro conjI; assumption)
qed

theorem find_sleeps_always_witness:
  "DfsWorker_find (tree_ext never_stop) 1 stealable \<noteq> None \<and>
   1 < length (worker stealable) \<and>
   slept (worker (snd (the (DfsWorker_find (tree_ext never_stop) 1 stealable))) ! 1) =
     slept (worker stealable ! 1) + 10"
proof -
  obtain rs e' where f: "DfsWorker_find (tree_ext never_stop) 1 stealable = Some (rs, e')"
    using stealable_find by simp
  have l: "1 < length (worker stealable)" by (simp add: stealable_eq)
  from find_sleeps_always [OF f l, THEN conjunct1] f l show ?thesis by simp
qed

text \<open>
  C8, as stated, fails: a stop is not reported exactly once. With a stop predicate that
  keeps firing, the worker reports the stop in one iteration and, the command being still
  \<^verbatim>\<open>C_WORK\<close>, again in the next, when \<^verbatim>\<open>has_stopped\<close> is already set.
\<close>

theorem stop_reported_twice:
  "DfsWorker_run (tree_ext (node_stop 0)) 0 stopping = Some ([Stop], stopped_once) \<and>
   has_stopped stopped_once \<and>
   DfsWorker_run (tree_ext (node_stop 0)) 0 stopped_once = Some ([Stop], stopped_once)"
  using stopping_run stopped_once_run by (simp add: stopped_once_def)

text \<open>
  C8, amended. Whenever the stop predicate fires in an iteration under \<^verbatim>\<open>C_WORK\<close> of a
  worker that holds a current space, the worker reports the stop, every time. The flag
  \<^verbatim>\<open>has_stopped\<close> is sticky: once set, a further report of a stop changes nothing and
  signals nothing, and the flag stays set under every call of a worker on the engine,
  every worker iteration and every \<^verbatim>\<open>next()\<close>. It is what \<^verbatim>\<open>stopped()\<close> returns, and
  with the flag set \<^verbatim>\<open>next()\<close> returns at once: no solution if the queue is empty, else
  the solution at the head of the queue.
\<close>

theorem stop_is_sticky:
  "(cmd e = C_WORK \<and> \<not> idle (worker e ! k) \<and> cur (worker e ! k) = Some c \<and>
      Worker_stop x (Worker_start x (stats (worker e ! k))) (Path_size (path (worker e ! k))) \<longrightarrow>
      (\<exists>e'. DfsWorker_run x k e = Some ([Stop], e') \<and> has_stopped e' \<and> DfsEngine_stopped e')) \<and>
   (has_stopped e \<longrightarrow>
      DfsEngine_stop e = e \<and> DfsEngine_stopped e \<and>
      (do_report r e = Some e1 \<longrightarrow> has_stopped e1) \<and>
      (DfsWorker_run x k e = Some (rs, e2) \<longrightarrow> has_stopped e2) \<and>
      (DfsEngine_next x e sched = Returned r' e3 \<longrightarrow> has_stopped e3) \<and>
      (DfsEngine_next x e sched =
         (if solutions e = [] then Returned None e
          else Returned (Some (hd (solutions e))) (e\<lparr>solutions := tl (solutions e)\<rparr>))))"
proof -
  have 1: "cmd e = C_WORK \<and> \<not> idle (worker e ! k) \<and> cur (worker e ! k) = Some c \<and>
      Worker_stop x (Worker_start x (stats (worker e ! k))) (Path_size (path (worker e ! k))) \<longrightarrow>
      (\<exists>e'. DfsWorker_run x k e = Some ([Stop], e') \<and> has_stopped e' \<and> DfsEngine_stopped e')"
    by (simp add: DfsWorker_run_def run_WORK_def run_explore_stop DfsEngine_stopped_def Let_def)
  have 2: "has_stopped e \<longrightarrow> (do_report r e = Some e1 \<longrightarrow> has_stopped e1)"
    using same_control_report [of r e e1] by (auto simp: same_control_def)
  have 3: "has_stopped e \<longrightarrow> (DfsWorker_run x k e = Some (rs, e2) \<longrightarrow> has_stopped e2)"
    using same_control_run [of x k e rs e2] by (auto simp: same_control_def)
  have 4: "has_stopped e \<longrightarrow> (DfsEngine_next x e sched = Returned r' e3 \<longrightarrow> has_stopped e3)"
    using next_stopped [of e x sched r' e3] by blast
  have 5: "has_stopped e \<longrightarrow> DfsEngine_next x e sched =
         (if solutions e = [] then Returned None e
          else Returned (Some (hd (solutions e))) (e\<lparr>solutions := tl (solutions e)\<rparr>))"
    by (simp add: DfsEngine_next_def)
  from 1 2 3 4 5 show ?thesis by (simp add: stop_again DfsEngine_stopped_def)
qed

theorem stop_is_sticky_witness:
  "cmd stopping = C_WORK \<and> \<not> idle (worker stopping ! 0) \<and> cur (worker stopping ! 0) = Some Solved \<and>
   DfsWorker_run (tree_ext (node_stop 0)) 0 stopping = Some ([Stop], stopped_once) \<and>
   has_stopped stopped_once \<and> DfsEngine_stop stopped_once = stopped_once \<and>
   DfsEngine_next (tree_ext (node_stop 0)) stopped_once [] = Returned None stopped_once"
proof -
  have h: "has_stopped stopped_once" "solutions stopped_once = []"
    by (simp_all add: stopped_once_def stopping_eq)
  have c: "cmd stopping = C_WORK" "\<not> idle (worker stopping ! 0)"
    "cur (worker stopping ! 0) = Some Solved"
    by (simp_all add: stopping_eq)
  from stop_is_sticky [of stopped_once 0 Solved "tree_ext (node_stop 0)" Stop stopped_once
      "[Stop]" stopped_once "[]" None stopped_once] h c stopping_run
  show ?thesis by simp
qed




text \<open>
  C10. A worker constructed without a root is not idle, has no current space and an empty
  path; the constructor counts it in \<^verbatim>\<open>n_busy\<close>, which it sets to the number of
  workers. While such a worker is not idle and has no current space, an iteration under
  \<^verbatim>\<open>C_WAIT\<close> changes nothing, and an iteration under \<^verbatim>\<open>C_WORK\<close> makes it idle,
  reports it idle and takes one off \<^verbatim>\<open>n_busy\<close> exactly when \<^verbatim>\<open>path.next\<close> is false,
  which it is on the empty path. An iteration of another worker leaves its idle flag and
  its current space as they are.
\<close>

theorem worker_without_root:
  "\<not> idle (DfsWorker_init x opts sz None) \<and> cur (DfsWorker_init x opts sz None) = None \<and>
   path (DfsWorker_init x opts sz None) = [] \<and>
   (DfsEngine_ctor x s sz opts raw = Some e0 \<longrightarrow>
      n_busy e0 = threads opts \<and> length (worker e0) = unat (threads opts) \<and>
      (\<forall>i. 0 < i \<and> i < unat (threads opts) \<longrightarrow> worker e0 ! i = DfsWorker_init x opts sz None)) \<and>
   (k < length (worker e) \<and> \<not> idle (worker e ! k) \<and> cur (worker e ! k) = None \<longrightarrow>
      (cmd e = C_WAIT \<longrightarrow> DfsWorker_run x k e = Some ([], e)) \<and>
      (cmd e = C_WORK \<longrightarrow>
         (\<exists>e'. DfsWorker_run x k e =
                  Some (if fst (Path_next x (path (worker e ! k))) then [] else [Idle], e') \<and>
               (idle (worker e' ! k) \<longleftrightarrow> \<not> fst (Path_next x (path (worker e ! k)))) \<and>
               n_busy e' =
                 (if fst (Path_next x (path (worker e ! k))) then n_busy e else n_busy e - 1))) \<and>
      (path (worker e ! k) = [] \<longrightarrow> \<not> fst (Path_next x (path (worker e ! k))))) \<and>
   (j \<noteq> k \<and> DfsWorker_run x j e = Some (rs, e'') \<longrightarrow>
      idle (worker e'' ! k) = idle (worker e ! k) \<and> cur (worker e'' ! k) = cur (worker e ! k))"
proof -
  have a: "DfsEngine_ctor x s sz opts raw = Some e0 \<longrightarrow>
      n_busy e0 = threads opts \<and> length (worker e0) = unat (threads opts) \<and>
      (\<forall>i. 0 < i \<and> i < unat (threads opts) \<longrightarrow> worker e0 ! i = DfsWorker_init x opts sz None)"
  proof
    assume c: "DfsEngine_ctor x s sz opts raw = Some e0"
    then have t: "threads opts \<noteq> 0" and l: "last (DfsEngine_trace x s sz opts raw) = e0"
      by (simp_all add: ctor_Some)
    from ctor_last [OF l] have w: "worker e0 = ctor_workers x s sz opts" and n: "n_busy e0 = threads opts"
      by (simp_all add: ctor_workers_def)
    have len: "length (ctor_workers x s sz opts) = unat (threads opts)"
      using unat_threads_pos [OF t] by (simp add: ctor_workers_def)
    have "\<forall>i. 0 < i \<and> i < unat (threads opts) \<longrightarrow>
            ctor_workers x s sz opts ! i = DfsWorker_init x opts sz None"
      by (auto simp: ctor_workers_def nth_Cons split: nat.splits)
    with w n len show "n_busy e0 = threads opts \<and> length (worker e0) = unat (threads opts) \<and>
      (\<forall>i. 0 < i \<and> i < unat (threads opts) \<longrightarrow> worker e0 ! i = DfsWorker_init x opts sz None)"
      by simp
  qed
  have b: "k < length (worker e) \<and> \<not> idle (worker e ! k) \<and> cur (worker e ! k) = None \<longrightarrow>
      (cmd e = C_WAIT \<longrightarrow> DfsWorker_run x k e = Some ([], e)) \<and>
      (cmd e = C_WORK \<longrightarrow>
         (\<exists>e'. DfsWorker_run x k e =
                  Some (if fst (Path_next x (path (worker e ! k))) then [] else [Idle], e') \<and>
               (idle (worker e' ! k) \<longleftrightarrow> \<not> fst (Path_next x (path (worker e ! k)))) \<and>
               n_busy e' =
                 (if fst (Path_next x (path (worker e ! k))) then n_busy e else n_busy e - 1))) \<and>
      (path (worker e ! k) = [] \<longrightarrow> \<not> fst (Path_next x (path (worker e ! k))))"
  proof
    assume h: "k < length (worker e) \<and> \<not> idle (worker e ! k) \<and> cur (worker e ! k) = None"
    then have k: "k < length (worker e)" by simp
    have 1: "cmd e = C_WAIT \<longrightarrow> DfsWorker_run x k e = Some ([], e)"
      by (simp add: DfsWorker_run_def)
    have 2: "cmd e = C_WORK \<longrightarrow>
         DfsWorker_run x k e = Some (fst (run_recompute x k e), snd (run_recompute x k e))"
      using h by (simp add: DfsWorker_run_def run_WORK_def)
    have 3: "path (worker e ! k) = [] \<longrightarrow> \<not> fst (Path_next x (path (worker e ! k)))"
      by simp
    from 1 2 3 run_recompute_idle [OF k, of x] h
    show "(cmd e = C_WAIT \<longrightarrow> DfsWorker_run x k e = Some ([], e)) \<and>
      (cmd e = C_WORK \<longrightarrow>
         (\<exists>e'. DfsWorker_run x k e =
                  Some (if fst (Path_next x (path (worker e ! k))) then [] else [Idle], e') \<and>
               (idle (worker e' ! k) \<longleftrightarrow> \<not> fst (Path_next x (path (worker e ! k)))) \<and>
               n_busy e' =
                 (if fst (Path_next x (path (worker e ! k))) then n_busy e else n_busy e - 1))) \<and>
      (path (worker e ! k) = [] \<longrightarrow> \<not> fst (Path_next x (path (worker e ! k))))"
      by simp
  qed
  have c: "j \<noteq> k \<and> DfsWorker_run x j e = Some (rs, e'') \<longrightarrow>
      idle (worker e'' ! k) = idle (worker e ! k) \<and> cur (worker e'' ! k) = cur (worker e ! k)"
    using run_other [of x j e rs e'' k] by blast
  from init_None [of x opts sz] a b c show ?thesis by blast
qed

theorem worker_without_root_witness:
  "DfsEngine_ctor (tree_ext never_stop) (Branch [Failed, Solved]) 0 (options 2) raw_engine = Some pair \<and>
   n_busy pair = 2 \<and> worker pair ! 1 = DfsWorker_init (tree_ext never_stop) (options 2) 0 None \<and>
   1 < length (worker pair_working) \<and> \<not> idle (worker pair_working ! 1) \<and>
   cur (worker pair_working ! 1) = None \<and> path (worker pair_working ! 1) = [] \<and>
   cmd pair_working = C_WORK \<and>
   (\<exists>e'. DfsWorker_run (tree_ext never_stop) 1 pair_working = Some ([Idle], e') \<and>
         idle (worker e' ! 1) \<and> n_busy e' = 1)"
proof -
  have h: "1 < length (worker pair_working) \<and> \<not> idle (worker pair_working ! 1) \<and>
           cur (worker pair_working ! 1) = None"
    and c: "cmd pair_working = C_WORK" and p: "path (worker pair_working ! 1) = []"
    and n: "n_busy pair_working = 2"
    by (simp_all add: pair_working_eq)
  have t: "threads (options 2) = 2" "(0::nat) < 1 \<and> (1::nat) < unat (2 :: 32 word)"
    by (simp_all add: options_def)
  note w = worker_without_root [of "tree_ext never_stop" "options 2" 0 "Branch [Failed, Solved]"
      raw_engine pair 1 pair_working 0 "[]" pair_working]
  note b = w [THEN conjunct2, THEN conjunct2, THEN conjunct2, THEN conjunct1, THEN mp, OF pair_ctor]
  note r = w [THEN conjunct2, THEN conjunct2, THEN conjunct2, THEN conjunct2, THEN conjunct1,
      THEN mp, OF h]
  from b t have 1: "n_busy pair = 2"
    and 2: "worker pair ! 1 = DfsWorker_init (tree_ext never_stop) (options 2) 0 None"
    by simp_all
  from r [THEN conjunct2, THEN conjunct1, THEN mp, OF c] p n
  have 3: "\<exists>e'. DfsWorker_run (tree_ext never_stop) 1 pair_working = Some ([Idle], e') \<and>
         idle (worker e' ! 1) \<and> n_busy e' = 1"
    by simp
  from pair_ctor 1 2 h c p 3 show ?thesis by blast
qed

end
